theory Spec2Isabelle
  imports Complex_Main
begin

section \<open>MiniYOLAF: anchor grid, box decoding and greedy non-maximum suppression\<close>

text \<open>
  The model follows \<^verbatim>\<open>models/MiniYOLAF.py\<close>. Floating-point numbers are modelled as
  real numbers (no rounding, no NaN); the one place where an infinite value decides a
  branch, the division in \<^verbatim>\<open>nms\<close>, is written out. Tensors and arrays are lists in
  row-major order together with their shape; the batch dimension is fixed to one image,
  as \<^verbatim>\<open>forward\<close> does in inference.
\<close>

subsection \<open>Data\<close>

text \<open>
  \<^verbatim>\<open>IndexError\<close> and \<^verbatim>\<open>RuntimeError\<close> are what numpy indexing and torch reshaping and
  broadcasting raise. \<^verbatim>\<open>ConfigError\<close> and \<^verbatim>\<open>ShapeError\<close> are the error kinds of the
  specification; no statement of the source raises them.
\<close>

datatype error = ConfigError | ShapeError | IndexError | RuntimeError

text \<open>A row of a box array: \<^verbatim>\<open>[xmin, ymin, xmax, ymax]\<close>, columns 0 to 3.\<close>

type_synonym box = "real \<times> real \<times> real \<times> real"

fun col0 :: "box \<Rightarrow> real" where "col0 (a, b, c, d) = a"
fun col1 :: "box \<Rightarrow> real" where "col1 (a, b, c, d) = b"
fun col2 :: "box \<Rightarrow> real" where "col2 (a, b, c, d) = c"
fun col3 :: "box \<Rightarrow> real" where "col3 (a, b, c, d) = d"

text \<open>
  A tensor of shape \<^verbatim>\<open>[1, HW, A, k]\<close>: \<open>t_hw\<close> cells, \<open>t_an\<close> anchors per cell, and the
  \<open>t_hw * t_an\<close> entries (each the last axis, a tuple) in row-major order.
\<close>

record 'a tensor =
  t_hw :: nat
  t_an :: nat
  t_elems :: "'a list"

text \<open>The fields of the \<^verbatim>\<open>MiniYOLAF\<close> object that decoding and postprocessing read.\<close>

record MiniYOLAF =
  input_size :: nat
  conf_thresh :: real
  nms_thresh :: real
  stride :: "nat list"
  anchor_size :: "(real \<times> real) list list"
  anchor_number :: nat
  grid_cell :: "(real \<times> real) tensor"
  stride_tensor :: "(real \<times> real) tensor"
  all_anchors_wh :: "(real \<times> real) tensor"
  scale_torch :: real

subsection \<open>Greedy non-maximum suppression (\<^verbatim>\<open>nms\<close>)\<close>

text \<open>\<^verbatim>\<open>areas = (x2 - x1) * (y2 - y1)\<close>\<close>

definition areas :: "box list \<Rightarrow> real list" where
  "areas dets = map (\<lambda>d. (col2 d - col0 d) * (col3 d - col1 d)) dets"

text \<open>
  \<^verbatim>\<open>scores.argsort()\<close>, numpy's default kind: the indices by ascending score. That sort
  is an introsort and not stable. An array of at most 17 elements it sorts by insertion
  alone, which leaves equal scores in index order: the first branch. A longer array it
  partitions first, and where equal scores end up then depends on numpy's partitioning,
  of which the source fixes nothing; all that is known of the result is what
  \<open>argsort_spec\<close> says, every index once and the scores ascending, and the second
  branch is one such list.
\<close>

definition argsort_spec :: "real list \<Rightarrow> nat list \<Rightarrow> bool" where
  "argsort_spec scores order =
     (length order = length scores \<and> set order = {0..<length scores}
      \<and> sorted (map (\<lambda>i. scores ! i) order))"

definition argsort :: "real list \<Rightarrow> nat list" where
  "argsort scores =
     (if length scores \<le> 17 then sort_key (\<lambda>i. scores ! i) [0..<length scores]
      else (SOME order. argsort_spec scores order))"

text \<open>
  The overlap of the box \<open>i\<close> just kept with a remaining box \<open>j\<close>:
  \<^verbatim>\<open>w = maximum(1e-28, xx2 - xx1)\<close>, \<^verbatim>\<open>h = maximum(1e-28, yy2 - yy1)\<close>,
  \<^verbatim>\<open>inter = w * h\<close>.
\<close>

definition inter :: "box list \<Rightarrow> nat \<Rightarrow> nat \<Rightarrow> real" where
  "inter dets i j =
     (let xx1 = max (col0 (dets ! i)) (col0 (dets ! j));
          yy1 = max (col1 (dets ! i)) (col1 (dets ! j));
          xx2 = min (col2 (dets ! i)) (col2 (dets ! j));
          yy2 = min (col3 (dets ! i)) (col3 (dets ! j));
          w = max (1 / 10 ^ 28) (xx2 - xx1);
          h = max (1 / 10 ^ 28) (yy2 - yy1)
      in w * h)"

text \<open>
  \<^verbatim>\<open>ovr = inter / (areas[i] + areas[j] - inter)\<close>. numpy does not raise on a zero
  denominator: \<open>inter\<close> is positive, so the quotient is \<open>+inf\<close>, here \<open>None\<close>.
\<close>

definition ovr :: "box list \<Rightarrow> nat \<Rightarrow> nat \<Rightarrow> real option" where
  "ovr dets i j =
     (let d = areas dets ! i + areas dets ! j - inter dets i j
      in if d = 0 then None else Some (inter dets i j / d))"

text \<open>\<^verbatim>\<open>ovr <= self.nms_thresh\<close>; \<open>+inf\<close> is above every threshold.\<close>

definition ovr_le :: "real option \<Rightarrow> real \<Rightarrow> bool" where
  "ovr_le v thr = (case v of None \<Rightarrow> False | Some r \<Rightarrow> r \<le> thr)"

text \<open>
  \<^verbatim>\<open>inds = np.where(ovr <= self.nms_thresh)[0]\<close>: positions in \<^verbatim>\<open>order[1:]\<close>, and
  \<^verbatim>\<open>order = order[inds + 1]\<close>.
\<close>

definition inds :: "real \<Rightarrow> box list \<Rightarrow> nat list \<Rightarrow> nat list" where
  "inds thr dets order =
     [p \<leftarrow> [0..<length (tl order)]. ovr_le (ovr dets (hd order) (tl order ! p)) thr]"

definition next_order :: "real \<Rightarrow> box list \<Rightarrow> nat list \<Rightarrow> nat list" where
  "next_order thr dets order = map (\<lambda>p. order ! (p + 1)) (inds thr dets order)"

text \<open>The \<^verbatim>\<open>while order.size > 0\<close> loop, with \<^verbatim>\<open>keep\<close> as accumulator.\<close>

function nms_loop :: "real \<Rightarrow> box list \<Rightarrow> nat list \<Rightarrow> nat list \<Rightarrow> nat list" where
  "nms_loop thr dets keep order =
     (if order = [] then keep
      else nms_loop thr dets (keep @ [hd order]) (next_order thr dets order))"
  by pat_completeness auto
termination
proof (relation "measure (\<lambda>(thr, dets, keep, order). length order)")
  fix thr :: real and dets :: "box list" and keep order :: "nat list"
  assume ne: "order \<noteq> []"
  have "length (next_order thr dets order) \<le> length (tl order)"
    unfolding next_order_def inds_def by (simp add: order_trans [OF length_filter_le])
  also have "\<dots> < length order" using ne by (cases order) simp_all
  finally show "((thr, dets, keep @ [hd order], next_order thr dets order), (thr, dets, keep, order))
        \<in> measure (\<lambda>(thr, dets, keep, order). length order)"
    by simp
qed simp

declare nms_loop.simps [simp del]

text \<open>
  The number of rounds of the loop, counted beside it.
\<close>

function nms_rounds :: "real \<Rightarrow> box list \<Rightarrow> nat list \<Rightarrow> nat" where
  "nms_rounds thr dets order =
     (if order = [] then 0 else Suc (nms_rounds thr dets (next_order thr dets order)))"
  by pat_completeness auto
termination
proof (relation "measure (\<lambda>(thr, dets, order). length order)")
  fix thr :: real and dets :: "box list" and order :: "nat list"
  assume ne: "order \<noteq> []"
  have "length (next_order thr dets order) \<le> length (tl order)"
    unfolding next_order_def inds_def by (simp add: order_trans [OF length_filter_le])
  also have "\<dots> < length order" using ne by (cases order) simp_all
  finally show "((thr, dets, next_order thr dets order), (thr, dets, order))
        \<in> measure (\<lambda>(thr, dets, order). length order)"
    by simp
qed simp

declare nms_rounds.simps [simp del]

text \<open>
  \<^verbatim>\<open>nms(self, dets, scores)\<close>. With more scores than boxes the first round indexes
  the box columns out of range (\<^verbatim>\<open>x1[order[1:]]\<close> or \<^verbatim>\<open>x1[i]\<close>), which raises
  \<^verbatim>\<open>IndexError\<close>; with fewer, the extra boxes are never looked at.
\<close>

definition nms :: "MiniYOLAF \<Rightarrow> box list \<Rightarrow> real list \<Rightarrow> error + nat list" where
  "nms self dets scores =
     (if length dets < length scores then Inl IndexError
      else Inr (nms_loop (nms_thresh self) dets [] (rev (argsort scores))))"

subsection \<open>Confidence filter and suppression (\<^verbatim>\<open>postprocess\<close>)\<close>

text \<open>
  \<^verbatim>\<open>keep = np.where(scores >= conf_thresh)\<close>, \<^verbatim>\<open>bbox_pred[keep]\<close> (an index past the
  last box raises \<^verbatim>\<open>IndexError\<close>), then the 0/1 array \<^verbatim>\<open>keep\<close> of that length is set
  to 1 at the indices \<^verbatim>\<open>nms\<close> returned, and \<^verbatim>\<open>np.where(keep > 0)\<close> selects rows.
\<close>

definition postprocess :: "MiniYOLAF \<Rightarrow> box list \<Rightarrow> real list \<Rightarrow> error + (box list \<times> real list)" where
  "postprocess self all_local all_conf =
     (let keep0 = [i \<leftarrow> [0..<length all_conf]. conf_thresh self \<le> all_conf ! i]
      in if \<exists>i \<in> set keep0. length all_local \<le> i then Inl IndexError
         else
           let bbox_pred = map (\<lambda>i. all_local ! i) keep0;
               scores = map (\<lambda>i. all_conf ! i) keep0;
               zeros = replicate (length bbox_pred) (0 :: nat)
           in case nms self bbox_pred scores of
                Inl e \<Rightarrow> Inl e
              | Inr c_keep \<Rightarrow>
                  if \<exists>i \<in> set c_keep. length zeros \<le> i then Inl IndexError
                  else
                    let mask = fold (\<lambda>i k. k[i := 1]) c_keep zeros;
                        keep = [i \<leftarrow> [0..<length mask]. 0 < mask ! i]
                    in Inr (map (\<lambda>i. bbox_pred ! i) keep, map (\<lambda>i. scores ! i) keep))"

subsection \<open>The anchor grid (\<^verbatim>\<open>create_grid\<close>)\<close>

text \<open>
  \<^verbatim>\<open>torch.meshgrid([torch.arange(hs), torch.arange(ws)])\<close>: two \<open>hs\<close> by \<open>ws\<close> tables,
  the first holding the row number, the second the column number.
\<close>

definition meshgrid :: "nat \<Rightarrow> nat \<Rightarrow> nat list list \<times> nat list list" where
  "meshgrid hs ws = (map (\<lambda>i. replicate ws i) [0..<hs], replicate hs [0..<ws])"

text \<open>
  \<^verbatim>\<open>torch.stack([grid_x, grid_y], dim=-1).float().view(1, hs*ws, 1, 2)\<close>
\<close>

definition stack_view :: "nat list list \<Rightarrow> nat list list \<Rightarrow> (real \<times> real) tensor" where
  "stack_view grid_x grid_y =
     (let rows = concat (map2 (\<lambda>rx ry. map2 (\<lambda>x y. (real x, real y)) rx ry) grid_x grid_y)
      in \<lparr>t_hw = length rows, t_an = 1, t_elems = rows\<rparr>)"

text \<open>\<^verbatim>\<open>torch.cat\<close> along the cell axis of tensors with \<open>an\<close> anchors per cell.\<close>

definition cat :: "nat \<Rightarrow> 'a tensor list \<Rightarrow> 'a tensor" where
  "cat an ts = \<lparr>t_hw = sum_list (map t_hw ts), t_an = an, t_elems = concat (map t_elems ts)\<rparr>"

text \<open>One round of the loop over \<^verbatim>\<open>enumerate(self.stride)\<close>; \<open>sz\<close> is the argument \<^verbatim>\<open>input_size\<close>.\<close>

definition grid_of_scale ::
  "MiniYOLAF \<Rightarrow> nat \<Rightarrow> nat \<times> nat \<Rightarrow>
     (real \<times> real) tensor \<times> (real \<times> real) tensor \<times> (real \<times> real) tensor" where
  "grid_of_scale self sz = (\<lambda>(ind, s).
     (let w = sz; h = sz;
          ws = w div s; hs = h div s;
          (grid_y, grid_x) = meshgrid hs ws;
          grid_xy = stack_view grid_x grid_y;
          stride_t = \<lparr>t_hw = hs * ws, t_an = anchor_number self,
                      t_elems = replicate (hs * ws * anchor_number self) (1 * real s, 1 * real s)\<rparr>;
          anchor_wh = \<lparr>t_hw = hs * ws, t_an = anchor_number self,
                       t_elems = concat (replicate (hs * ws) (anchor_size self ! ind))\<rparr>
      in (grid_xy, stride_t, anchor_wh)))"

definition create_grid ::
  "MiniYOLAF \<Rightarrow> nat \<Rightarrow>
     (real \<times> real) tensor \<times> (real \<times> real) tensor \<times> (real \<times> real) tensor" where
  "create_grid self sz =
     (let per_scale = map (grid_of_scale self sz) (enumerate 0 (stride self));
          total_grid_xy = cat 1 (map fst per_scale);
          total_stride = cat (anchor_number self) (map (fst \<circ> snd) per_scale);
          total_anchor_wh = cat (anchor_number self) (map (snd \<circ> snd) per_scale)
      in (total_grid_xy, total_stride, total_anchor_wh))"

subsection \<open>Construction (\<^verbatim>\<open>__init__\<close>)\<close>

text \<open>
  \<^verbatim>\<open>torch.tensor(anchor_size).view(3, len(anchor_size) // 3, 2)\<close>: the \<open>n\<close> pairs are
  regrouped into three rows of \<open>n div 3\<close> pairs; \<^verbatim>\<open>view\<close> raises \<^verbatim>\<open>RuntimeError\<close> when the
  element counts differ.
\<close>

definition view_anchors :: "(real \<times> real) list \<Rightarrow> error + (real \<times> real) list list" where
  "view_anchors anchors =
     (let a = length anchors div 3
      in if length anchors * 2 \<noteq> 3 * a * 2 then Inl RuntimeError
         else Inr (map (\<lambda>i. take a (drop (i * a) anchors)) [0..<3]))"

text \<open>
  The constructor, without the network layers (backbone, neck, heads) and the arguments
  \<^verbatim>\<open>device\<close>, \<^verbatim>\<open>trainable\<close> and \<^verbatim>\<open>hr\<close> that only they read. The thresholds are stored as
  given.
\<close>

definition MiniYOLAF_init ::
  "nat \<Rightarrow> real \<Rightarrow> real \<Rightarrow> (real \<times> real) list \<Rightarrow> error + MiniYOLAF" where
  "MiniYOLAF_init input_size' conf_thresh' nms_thresh' anchor_size' =
     (case view_anchors anchor_size' of
        Inl e \<Rightarrow> Inl e
      | Inr anchors \<Rightarrow>
          let empty = \<lparr>t_hw = 0, t_an = 0, t_elems = []\<rparr>;
              self = \<lparr>input_size = input_size', conf_thresh = conf_thresh',
                      nms_thresh = nms_thresh', stride = [8, 16, 32],
                      anchor_size = anchors, anchor_number = length anchor_size' div 3,
                      grid_cell = empty, stride_tensor = empty, all_anchors_wh = empty,
                      scale_torch = real input_size'\<rparr>;
              (g, st, wh) = create_grid self input_size'
          in Inr (self\<lparr>grid_cell := g, stride_tensor := st, all_anchors_wh := wh\<rparr>))"

subsection \<open>Box decoding (\<^verbatim>\<open>decode_xywh\<close>, \<^verbatim>\<open>decode_boxes\<close>) and clamping\<close>

definition sigmoid :: "real \<Rightarrow> real" where
  "sigmoid x = 1 / (1 + exp (- x))"

text \<open>
  Broadcasting of two axes: equal sizes, or one of them 1; anything else raises
  \<^verbatim>\<open>RuntimeError\<close>. An axis of size 1 is read at index 0 for every position.
\<close>

definition bdim :: "nat \<Rightarrow> nat \<Rightarrow> nat option" where
  "bdim m n = (if m = n then Some m else if m = 1 then Some n else if n = 1 then Some m else None)"

definition bget :: "'a tensor \<Rightarrow> nat \<Rightarrow> nat \<Rightarrow> 'a" where
  "bget t i k =
     t_elems t ! ((if t_hw t = 1 then 0 else i) * t_an t + (if t_an t = 1 then 0 else k))"

definition bop :: "('a \<Rightarrow> 'b \<Rightarrow> 'c) \<Rightarrow> 'a tensor \<Rightarrow> 'b tensor \<Rightarrow> error + 'c tensor" where
  "bop f t u =
     (case (bdim (t_hw t) (t_hw u), bdim (t_an t) (t_an u)) of
        (Some n, Some m) \<Rightarrow>
          Inr \<lparr>t_hw = n, t_an = m,
               t_elems = concat (map (\<lambda>i. map (\<lambda>k. f (bget t i k) (bget u i k)) [0..<m]) [0..<n])\<rparr>
      | _ \<Rightarrow> Inl RuntimeError)"

text \<open>
  \<^verbatim>\<open>decode_xywh\<close> for one image: the prediction has shape \<^verbatim>\<open>[HW, ab_n, 4]\<close>; the result
  of \<^verbatim>\<open>torch.cat([c_xy_pred, b_wh_pred], -1).view(B, HW*ab_n, 4)\<close> is the list of rows.
\<close>

definition decode_xywh :: "MiniYOLAF \<Rightarrow> box tensor \<Rightarrow> error + box list" where
  "decode_xywh self txtytwth_pred =
     (let HW = t_hw txtytwth_pred; ab_n = t_an txtytwth_pred
      in case bop (\<lambda>t g. (sigmoid (col0 t) + fst g, sigmoid (col1 t) + snd g))
                  txtytwth_pred (grid_cell self) of
           Inl e \<Rightarrow> Inl e
         | Inr sg \<Rightarrow>
        (case bop (\<lambda>c s. (fst c * fst s, snd c * snd s)) sg (stride_tensor self) of
           Inl e \<Rightarrow> Inl e
         | Inr c_xy_pred \<Rightarrow>
        (case bop (\<lambda>t a. (exp (col2 t) * fst a, exp (col3 t) * snd a))
                  txtytwth_pred (all_anchors_wh self) of
           Inl e \<Rightarrow> Inl e
         | Inr b_wh_pred \<Rightarrow>
             if t_hw c_xy_pred \<noteq> t_hw b_wh_pred \<or> t_an c_xy_pred \<noteq> t_an b_wh_pred
             then Inl RuntimeError
             else if t_hw c_xy_pred * t_an c_xy_pred \<noteq> HW * ab_n then Inl RuntimeError
             else Inr (map2 (\<lambda>c b. (fst c, snd c, fst b, snd b))
                            (t_elems c_xy_pred) (t_elems b_wh_pred)))))"

definition decode_boxes :: "MiniYOLAF \<Rightarrow> box tensor \<Rightarrow> error + box list" where
  "decode_boxes self txtytwth_pred =
     (case decode_xywh self txtytwth_pred of
        Inl e \<Rightarrow> Inl e
      | Inr xywh_pred \<Rightarrow>
          Inr (map (\<lambda>r. (col0 r - col2 r / 2, col1 r - col3 r / 2,
                          col0 r + col2 r / 2, col1 r + col3 r / 2)) xywh_pred))"

text \<open>\<^verbatim>\<open>torch.clamp(x, lo, hi)\<close>\<close>

definition clamp :: "real \<Rightarrow> real \<Rightarrow> real \<Rightarrow> real" where
  "clamp x lo hi = min (max x lo) hi"

text \<open>
  \<^verbatim>\<open>all_bbox = torch.clamp((self.decode_boxes(txtytwth_pred) / self.scale_torch)[0], 0., 1.)\<close>
\<close>

definition all_bbox :: "MiniYOLAF \<Rightarrow> box tensor \<Rightarrow> error + box list" where
  "all_bbox self txtytwth_pred =
     (case decode_boxes self txtytwth_pred of
        Inl e \<Rightarrow> Inl e
      | Inr bs \<Rightarrow>
          Inr (map (\<lambda>b. (clamp (col0 b / scale_torch self) 0 1, clamp (col1 b / scale_torch self) 0 1,
                          clamp (col2 b / scale_torch self) 0 1, clamp (col3 b / scale_torch self) 0 1))
                   bs))"

text \<open>
  The inference branch of \<^verbatim>\<open>forward\<close> after the network layers. The source reshapes
  with \<^verbatim>\<open>view(B, HW, self.anchor_number, 4)\<close>, where \<^verbatim>\<open>HW\<close> is a name the method does not
  bind; it is a parameter here.
\<close>

definition forward_test ::
  "MiniYOLAF \<Rightarrow> nat \<Rightarrow> box list \<Rightarrow> real list \<Rightarrow> error + (box list \<times> real list)" where
  "forward_test self HW txtytwth_rows conf_pred =
     (if length txtytwth_rows \<noteq> HW * anchor_number self then Inl RuntimeError
      else
        let txtytwth_pred = \<lparr>t_hw = HW, t_an = anchor_number self, t_elems = txtytwth_rows\<rparr>;
            all_obj = map sigmoid conf_pred
        in case all_bbox self txtytwth_pred of
             Inl e \<Rightarrow> Inl e
           | Inr bs \<Rightarrow> postprocess self bs all_obj)"

subsection \<open>Auxiliary definitions for the proofs\<close>

text \<open>
  The loop of \<^verbatim>\<open>nms\<close> as a structural recursion over the order list: the head is
  kept and the tail is filtered by the retention test. The lemma \<open>nms_loop_greedy\<close>
  shows that the loop computes it.
\<close>

fun greedy :: "real \<Rightarrow> box list \<Rightarrow> nat list \<Rightarrow> nat list" where
  "greedy thr dets [] = []"
| "greedy thr dets (i # rest) = i # greedy thr dets [j \<leftarrow> rest. ovr_le (ovr dets i j) thr]"

text \<open>
  The indices that pass the confidence filter of \<^verbatim>\<open>postprocess\<close>,
  \<^verbatim>\<open>np.where(scores >= self.conf_thresh)\<close>.
\<close>

definition conf_keep :: "MiniYOLAF \<Rightarrow> real list \<Rightarrow> nat list" where
  "conf_keep self all_conf = [i \<leftarrow> [0..<length all_conf]. conf_thresh self \<le> all_conf ! i]"

text \<open>The (box, score) pairs of the input whose score is at least \<^verbatim>\<open>conf_thresh\<close>.\<close>

definition conf_pairs :: "MiniYOLAF \<Rightarrow> box list \<Rightarrow> real list \<Rightarrow> (box \<times> real) list" where
  "conf_pairs self all_local all_conf =
     filter (\<lambda>(b, s). conf_thresh self \<le> s) (zip all_local all_conf)"

text \<open>
  The cells of an \<open>n\<close> by \<open>n\<close> grid in row-major order, \<open>y\<close> outer and \<open>x\<close> inner, as
  pairs \<open>(x, y)\<close>; the lemma \<open>stack_view_meshgrid\<close> shows that \<^verbatim>\<open>meshgrid\<close>, \<^verbatim>\<open>stack\<close>
  and \<^verbatim>\<open>view\<close> produce it.
\<close>

definition cells_of :: "nat \<Rightarrow> (real \<times> real) list" where
  "cells_of n = concat (map (\<lambda>y. map (\<lambda>x. (real x, real y)) [0..<n]) [0..<n])"

text \<open>A box with all four coordinates in the closed interval from 0 to 1.\<close>

definition in_unit_square :: "box \<Rightarrow> bool" where
  "in_unit_square b =
     (0 \<le> col0 b \<and> col0 b \<le> 1 \<and> 0 \<le> col1 b \<and> col1 b \<le> 1
      \<and> 0 \<le> col2 b \<and> col2 b \<le> 1 \<and> 0 \<le> col3 b \<and> col3 b \<le> 1)"

text \<open>
  The model object for resolution 8, the default thresholds and one anchor per scale (one
  cell at stride 8, none at strides 16 and 32), for evaluating the operations; the lemma
  \<open>init_example\<close> shows that the constructor builds it.
\<close>

definition example_self :: MiniYOLAF where
  "example_self =
     \<lparr>input_size = 8, conf_thresh = 1 / 100, nms_thresh = 3 / 10, stride = [8, 16, 32],
      anchor_size = [[(10, 14)], [(20, 28)], [(40, 56)]], anchor_number = 1,
      grid_cell = \<lparr>t_hw = 1, t_an = 1, t_elems = [(0, 0)]\<rparr>,
      stride_tensor = \<lparr>t_hw = 1, t_an = 1, t_elems = [(8, 8)]\<rparr>,
      all_anchors_wh = \<lparr>t_hw = 1, t_an = 1, t_elems = [(10, 14)]\<rparr>,
      scale_torch = 8\<rparr>"

section \<open>Properties\<close>

subsection \<open>The suppression loop\<close>

lemma next_order_Cons:
  "next_order thr dets (i # rest) = [j \<leftarrow> rest. ovr_le (ovr dets i j) thr]"
proof -
  let ?P = "\<lambda>j. ovr_le (ovr dets i j) thr"
  have "[j \<leftarrow> rest. ?P j] = filter ?P (map (\<lambda>p. rest ! p) [0..<length rest])"
    by (simp add: map_nth)
  also have "\<dots> = map (\<lambda>p. rest ! p) [p \<leftarrow> [0..<length rest]. ?P (rest ! p)]"
    by (simp add: filter_map comp_def)
  finally show ?thesis
    by (simp add: next_order_def inds_def)
qed

lemma nms_loop_greedy: "nms_loop thr dets keep order = keep @ greedy thr dets order"
proof (induction thr dets keep order rule: nms_loop.induct)
  case (1 thr dets keep order)
  show ?case
  proof (cases order)
    case Nil
    then show ?thesis by (simp add: nms_loop.simps)
  next
    case (Cons i rest)
    then have "nms_loop thr dets keep order
        = nms_loop thr dets (keep @ [hd order]) (next_order thr dets order)"
      by (subst nms_loop.simps) simp
    also have "\<dots> = (keep @ [hd order]) @ greedy thr dets (next_order thr dets order)"
      using 1 Cons by simp
    finally show ?thesis using Cons by (simp add: next_order_Cons)
  qed
qed

lemma nms_rounds_greedy: "nms_rounds thr dets order = length (greedy thr dets order)"
proof (induction thr dets order rule: nms_rounds.induct)
  case (1 thr dets order)
  show ?case
  proof (cases order)
    case Nil
    then show ?thesis by (simp add: nms_rounds.simps)
  next
    case (Cons i rest)
    then have "nms_rounds thr dets order = Suc (nms_rounds thr dets (next_order thr dets order))"
      by (subst nms_rounds.simps) simp
    then show ?thesis using 1 Cons by (simp add: next_order_Cons)
  qed
qed

lemma greedy_set: "set (greedy thr dets order) \<subseteq> set order"
proof (induction thr dets order rule: greedy.induct)
  case (1 thr dets)
  show ?case by simp
next
  case (2 thr dets i rest)
  let ?rest' = "[j \<leftarrow> rest. ovr_le (ovr dets i j) thr]"
  have "set ?rest' \<subseteq> set rest" by (rule filter_is_subset)
  with 2 have "set (greedy thr dets ?rest') \<subseteq> set rest" by (rule subset_trans)
  then show ?case by (simp add: subset_insertI2)
qed

lemma greedy_set_filter:
  "x \<in> set (greedy thr dets (filter P rest)) \<Longrightarrow> x \<in> set rest \<and> P x"
proof -
  assume "x \<in> set (greedy thr dets (filter P rest))"
  then have "x \<in> set (filter P rest)" using greedy_set by (rule rev_subsetD)
  then show ?thesis by simp
qed

lemma greedy_length: "length (greedy thr dets order) \<le> length order"
proof (induction thr dets order rule: greedy.induct)
  case (1 thr dets)
  show ?case by simp
next
  case (2 thr dets i rest)
  have "length [j \<leftarrow> rest. ovr_le (ovr dets i j) thr] \<le> length rest" by simp
  with 2 have "length (greedy thr dets [j \<leftarrow> rest. ovr_le (ovr dets i j) thr]) \<le> length rest"
    by (rule order_trans)
  then show ?case by simp
qed

lemma greedy_sorted_wrt:
  "sorted_wrt R order \<Longrightarrow> sorted_wrt R (greedy thr dets order)"
proof (induction thr dets order rule: greedy.induct)
  case (1 thr dets)
  show ?case by simp
next
  case (2 thr dets i rest)
  let ?rest' = "[j \<leftarrow> rest. ovr_le (ovr dets i j) thr]"
  from 2(2) have hd_rel: "\<forall>x \<in> set rest. R i x" and tl_sorted: "sorted_wrt R rest" by simp_all
  from tl_sorted have "sorted_wrt R ?rest'" by (rule sorted_wrt_filter)
  then have "sorted_wrt R (greedy thr dets ?rest')" by (rule 2(1))
  moreover have "\<forall>x \<in> set (greedy thr dets ?rest'). R i x"
  proof
    fix x assume "x \<in> set (greedy thr dets ?rest')"
    then have "x \<in> set rest" by (rule greedy_set_filter [THEN conjunct1])
    with hd_rel show "R i x" by (rule bspec)
  qed
  ultimately show ?case by simp
qed

lemma greedy_distinct: "distinct order \<Longrightarrow> distinct (greedy thr dets order)"
proof (induction thr dets order rule: greedy.induct)
  case (1 thr dets)
  show ?case by simp
next
  case (2 thr dets i rest)
  let ?rest' = "[j \<leftarrow> rest. ovr_le (ovr dets i j) thr]"
  from 2(2) have notin: "i \<notin> set rest" and "distinct ?rest'" by simp_all
  then have "distinct (greedy thr dets ?rest')" using 2(1) by simp
  moreover have "i \<notin> set (greedy thr dets ?rest')"
  proof
    assume "i \<in> set (greedy thr dets ?rest')"
    then have "i \<in> set rest" by (rule greedy_set_filter [THEN conjunct1])
    with notin show False by simp
  qed
  ultimately show ?case by simp
qed


lemma greedy_hd: "order \<noteq> [] \<Longrightarrow> greedy thr dets order \<noteq> [] \<and> hd (greedy thr dets order) = hd order"
  by (cases order) simp_all

lemma argsort_spec_sort_key:
  "argsort_spec scores (sort_key (\<lambda>i. scores ! i) [0..<length scores])"
  by (simp add: argsort_spec_def)

lemma argsort_spec_argsort: "argsort_spec scores (argsort scores)"
proof (cases "length scores \<le> 17")
  case True
  then show ?thesis by (simp add: argsort_def argsort_spec_sort_key)
next
  case False
  have "argsort_spec scores (SOME order. argsort_spec scores order)"
    using argsort_spec_sort_key by (rule someI)
  with False show ?thesis by (simp add: argsort_def)
qed

lemma set_argsort: "set (argsort scores) = {0..<length scores}"
  using argsort_spec_argsort [of scores] by (simp add: argsort_spec_def)

lemma length_argsort: "length (argsort scores) = length scores"
  using argsort_spec_argsort [of scores] by (simp add: argsort_spec_def)

lemma distinct_argsort: "distinct (argsort scores)"
proof (rule card_distinct)
  show "card (set (argsort scores)) = length (argsort scores)"
    by (simp add: set_argsort length_argsort)
qed

lemma sorted_rev_argsort:
  "sorted_wrt (\<lambda>a b. scores ! b \<le> scores ! a) (rev (argsort scores))"
proof -
  have "sorted (map (\<lambda>i. scores ! i) (argsort scores))"
    using argsort_spec_argsort [of scores] by (simp add: argsort_spec_def)
  then have "sorted_wrt (\<lambda>a b. scores ! a \<le> scores ! b) (argsort scores)"
    by (simp add: sorted_map)
  then show ?thesis by (simp add: sorted_wrt_rev)
qed

lemma nms_example:
  "nms example_self [(0, 0, 10, 10), (1, 1, 9, 9), (100, 100, 110, 110)] [9 / 10, 8 / 10, 5 / 10]
     = Inr [0, 2]"
  by (simp add: example_self_def nms_def argsort_def nms_loop_greedy ovr_def ovr_le_def
        inter_def areas_def)

lemma greedy_discarded:
  "sorted_wrt R order \<Longrightarrow> j \<in> set order \<Longrightarrow> j \<notin> set (greedy thr dets order) \<Longrightarrow>
     \<exists>i \<in> set (greedy thr dets order). R i j \<and> \<not> ovr_le (ovr dets i j) thr"
proof (induction thr dets order rule: greedy.induct)
  case (1 thr dets)
  then show ?case by simp
next
  case (2 thr dets i rest)
  let ?rest' = "[k \<leftarrow> rest. ovr_le (ovr dets i k) thr]"
  from "2.prems"(3) have ji: "j \<noteq> i" and out: "j \<notin> set (greedy thr dets ?rest')" by simp_all
  with "2.prems"(2) have jr: "j \<in> set rest" by simp
  from "2.prems"(1) have hd_rel: "\<forall>x \<in> set rest. R i x" and tl_sorted: "sorted_wrt R rest"
    by simp_all
  show ?case
  proof (cases "ovr_le (ovr dets i j) thr")
    case False
    from hd_rel jr have "R i j" by (rule bspec)
    with False have "R i j \<and> \<not> ovr_le (ovr dets i j) thr" by simp
    then show ?thesis by (simp only: greedy.simps) (rule bexI [of _ i], simp_all)
  next
    case True
    with jr have "j \<in> set ?rest'" by simp
    moreover from tl_sorted have "sorted_wrt R ?rest'" by (rule sorted_wrt_filter)
    ultimately have "\<exists>k \<in> set (greedy thr dets ?rest'). R k j \<and> \<not> ovr_le (ovr dets k j) thr"
      using out by (intro "2.IH")
    then obtain k where "k \<in> set (greedy thr dets ?rest')" "R k j \<and> \<not> ovr_le (ovr dets k j) thr"
      by blast
    then show ?thesis by (simp only: greedy.simps) (rule bexI [of _ k], simp_all)
  qed
qed





lemma nms_run:
  "length dets = length scores \<Longrightarrow>
     nms self dets scores = Inr (greedy (nms_thresh self) dets (rev (argsort scores)))"
  by (simp add: nms_def nms_loop_greedy)

lemma sorted_wrt_hd_max:
  assumes "sorted_wrt (\<lambda>a b. (f b :: real) \<le> f a) xs" and "j \<in> set xs"
  shows "f j \<le> f (hd xs)"
proof (cases xs)
  case Nil
  with assms(2) show ?thesis by simp
next
  case (Cons x rest)
  with assms(1) have "\<forall>y \<in> set rest. f y \<le> f x" by simp
  with assms(2) Cons show ?thesis by auto
qed

text \<open>
  C9. For a non-empty box array with as many scores, \<^verbatim>\<open>nms\<close> returns a non-empty list
  whose first entry is the index of a score that no other score exceeds, and whose
  entries are pairwise distinct indices into both arrays.
\<close>

theorem nms_nonempty_max_distinct:
  assumes len: "length dets = length scores" and ne: "dets \<noteq> []"
  shows "\<exists>keep. nms self dets scores = Inr keep
           \<and> keep \<noteq> []
           \<and> (\<forall>j < length scores. scores ! j \<le> scores ! hd keep)
           \<and> distinct keep
           \<and> (\<forall>i \<in> set keep. i < length dets \<and> i < length scores)"
proof -
  define order where "order = rev (argsort scores)"
  define keep where "keep = greedy (nms_thresh self) dets order"
  have run: "nms self dets scores = Inr keep"
    unfolding keep_def order_def using len by (rule nms_run)
  have set_order: "set order = {0..<length scores}"
    by (simp add: order_def set_argsort)
  have "length order = length scores" by (simp add: order_def length_argsort)
  with len ne have order_ne: "order \<noteq> []" by auto
  then have keep_ne: "keep \<noteq> []" and hd_keep: "hd keep = hd order"
    unfolding keep_def by (simp_all add: greedy_hd)
  have desc: "sorted_wrt (\<lambda>a b. scores ! b \<le> scores ! a) order"
    unfolding order_def by (rule sorted_rev_argsort)
  have top: "\<forall>j < length scores. scores ! j \<le> scores ! hd keep"
  proof (intro allI impI)
    fix j assume "j < length scores"
    then have "j \<in> set order" by (simp add: set_order)
    with desc show "scores ! j \<le> scores ! hd keep"
      unfolding hd_keep by (rule sorted_wrt_hd_max)
  qed
  have dist: "distinct keep"
    unfolding keep_def by (rule greedy_distinct) (simp add: order_def distinct_argsort)
  have valid: "\<forall>i \<in> set keep. i < length dets \<and> i < length scores"
  proof
    fix i assume "i \<in> set keep"
    then have "i \<in> set order" unfolding keep_def using greedy_set by (rule rev_subsetD)
    then show "i < length dets \<and> i < length scores" using len by (simp add: set_order)
  qed
  from run keep_ne top dist valid show ?thesis by blast
qed

theorem nms_nonempty_max_distinct_witness:
  "length ([(0, 0, 10, 10), (1, 1, 9, 9), (100, 100, 110, 110)] :: box list) = length [8 / 10, 9 / 10, 5 / 10 :: real]
   \<and> ([(0, 0, 10, 10), (1, 1, 9, 9), (100, 100, 110, 110)] :: box list) \<noteq> []
   \<and> (\<exists>keep. nms example_self [(0, 0, 10, 10), (1, 1, 9, 9), (100, 100, 110, 110)]
                    [8 / 10, 9 / 10, 5 / 10] = Inr keep
          \<and> keep \<noteq> []
          \<and> (\<forall>j < length [8 / 10, 9 / 10, 5 / 10 :: real].
                 [8 / 10, 9 / 10, 5 / 10 :: real] ! j \<le> [8 / 10, 9 / 10, 5 / 10] ! hd keep)
          \<and> distinct keep
          \<and> (\<forall>i \<in> set keep. i < length ([(0, 0, 10, 10), (1, 1, 9, 9), (100, 100, 110, 110)] :: box list)
                 \<and> i < length [8 / 10, 9 / 10, 5 / 10 :: real]))"
proof -
  let ?dets = "([(0, 0, 10, 10), (1, 1, 9, 9), (100, 100, 110, 110)] :: box list)"
  let ?scores = "[8 / 10, 9 / 10, 5 / 10 :: real]"
  have len: "length ?dets = length ?scores" by simp
  have ne: "?dets \<noteq> []" by simp
  from len ne nms_nonempty_max_distinct [OF len ne, of example_self]
  show ?thesis by (intro conjI)
qed

text \<open>
  C10. Every round of the loop of \<^verbatim>\<open>nms\<close> replaces a non-empty order list by a strictly
  shorter one drawn from its tail (the popped head is gone), so the loop, which is a total
  function by its termination proof, makes at most as many rounds as the order list is
  long, appends one index to \<^verbatim>\<open>keep\<close> per round, and runs at most \<open>N\<close> rounds on \<open>N\<close> scores.
\<close>

theorem nms_loop_bounded:
  "(order \<noteq> [] \<longrightarrow>
      length (next_order thr dets order) < length order
      \<and> set (next_order thr dets order) \<subseteq> set (tl order))
   \<and> nms_rounds thr dets order \<le> length order
   \<and> length (nms_loop thr dets keep order) = length keep + nms_rounds thr dets order
   \<and> nms_rounds thr dets (rev (argsort scores)) \<le> length scores"
proof (intro conjI impI)
  assume "order \<noteq> []"
  then obtain i rest where o: "order = i # rest" by (cases order) auto
  show "length (next_order thr dets order) < length order"
    unfolding o next_order_Cons by (simp add: less_Suc_eq_le)
  show "set (next_order thr dets order) \<subseteq> set (tl order)"
    unfolding o next_order_Cons by simp
next
  show "nms_rounds thr dets order \<le> length order"
    by (simp add: nms_rounds_greedy greedy_length)
  show "length (nms_loop thr dets keep order) = length keep + nms_rounds thr dets order"
    by (simp add: nms_rounds_greedy nms_loop_greedy)
  have "nms_rounds thr dets (rev (argsort scores)) \<le> length (rev (argsort scores))"
    unfolding nms_rounds_greedy by (rule greedy_length)
  then show "nms_rounds thr dets (rev (argsort scores)) \<le> length scores"
    by (simp add: length_argsort)
qed

theorem nms_loop_bounded_witness:
  "[1, 0, 2 :: nat] \<noteq> []
   \<and> length (next_order (3 / 10) [(0, 0, 10, 10), (1, 1, 9, 9), (100, 100, 110, 110)] [1, 0, 2]) < length [1, 0, 2 :: nat]
   \<and> nms_rounds (3 / 10) [(0, 0, 10, 10), (1, 1, 9, 9), (100, 100, 110, 110)] [1, 0, 2] \<le> 3"
  using nms_loop_bounded [of "[1, 0, 2]" "3 / 10" "[(0, 0, 10, 10), (1, 1, 9, 9), (100, 100, 110, 110)]" "[]" "[]"]
  by simp

subsection \<open>Ties in the candidate order\<close>

text \<open>
  \<^verbatim>\<open>order = scores.argsort()[::-1]\<close> reverses an ascending sort. On at most 17 scores
  that sort is stable, so equal scores end up in descending index order.
\<close>

lemma insort_key_ties:
  fixes f :: "nat \<Rightarrow> real"
  assumes "sorted_wrt (\<lambda>a b. f a = f b \<longrightarrow> a < b) ys" and "\<forall>y \<in> set ys. x < y"
  shows "sorted_wrt (\<lambda>a b. f a = f b \<longrightarrow> a < b) (insort_key f x ys)"
  using assms
proof (induction ys)
  case Nil
  show ?case by simp
next
  case (Cons y ys)
  show ?case
  proof (cases "f x \<le> f y")
    case True
    with Cons.prems show ?thesis by simp
  next
    case False
    from Cons.prems have "sorted_wrt (\<lambda>a b. f a = f b \<longrightarrow> a < b) (insort_key f x ys)"
      by (intro Cons.IH) simp_all
    moreover have "\<forall>z \<in> set (insort_key f x ys). f y = f z \<longrightarrow> y < z"
      using Cons.prems(1) False by (auto simp: set_insort_key)
    ultimately show ?thesis using False by simp
  qed
qed

lemma sort_key_ties:
  fixes f :: "nat \<Rightarrow> real"
  shows "sorted_wrt (<) xs \<Longrightarrow> sorted_wrt (\<lambda>a b. f a = f b \<longrightarrow> a < b) (sort_key f xs)"
proof (induction xs)
  case Nil
  show ?case by simp
next
  case (Cons x xs)
  then have "sorted_wrt (\<lambda>a b. f a = f b \<longrightarrow> a < b) (sort_key f xs)" by simp
  moreover from Cons.prems have "\<forall>y \<in> set (sort_key f xs). x < y" by simp
  ultimately show ?case by (simp add: insort_key_ties)
qed

lemma argsort_ties:
  assumes "length scores \<le> 17"
  shows "sorted_wrt (\<lambda>a b. scores ! a = scores ! b \<longrightarrow> a < b) (argsort scores)"
proof -
  have "sorted_wrt (\<lambda>a b. scores ! a = scores ! b \<longrightarrow> a < b)
      (sort_key (\<lambda>i. scores ! i) [0..<length scores])"
    by (rule sort_key_ties) simp
  with assms show ?thesis by (simp add: argsort_def)
qed

lemma sorted_wrt_conj:
  "sorted_wrt P xs \<Longrightarrow> sorted_wrt Q xs \<Longrightarrow> sorted_wrt (\<lambda>a b. P a b \<and> Q a b) xs"
  by (induction xs) simp_all

lemma sorted_wrt_hd_rel:
  "sorted_wrt R xs \<Longrightarrow> j \<in> set xs \<Longrightarrow> j = hd xs \<or> R (hd xs) j"
  by (cases xs) auto

lemma rev_argsort_order:
  assumes short: "length scores \<le> 17"
  shows "sorted_wrt (\<lambda>a b. scores ! b \<le> scores ! a \<and> (scores ! a = scores ! b \<longrightarrow> b < a))
     (rev (argsort scores))"
proof -
  have "sorted_wrt (\<lambda>a b. scores ! a = scores ! b \<longrightarrow> b < a) (rev (argsort scores))"
  proof -
    have "sorted_wrt (\<lambda>a b. scores ! b = scores ! a \<longrightarrow> b < a) (rev (argsort scores))"
      using argsort_ties [OF short] by (simp add: sorted_wrt_rev)
    then show ?thesis
      by (rule sorted_wrt_mono_rel [rotated]) simp
  qed
  with sorted_rev_argsort [of scores] show ?thesis by (rule sorted_wrt_conj)
qed

lemma nms_identical_example:
  "nms example_self [(0, 0, 10, 10), (0, 0, 10, 10)] [1 / 2, 1 / 2] = Inr [1]"
  by (simp add: example_self_def nms_def argsort_def nms_loop_greedy ovr_def ovr_le_def
        inter_def areas_def)

text \<open>
  C3, as stated, fails: with two equal scores the order list of \<^verbatim>\<open>nms\<close> starts with the
  box of the larger index. For two disjoint boxes that box is kept first, and of two
  identical boxes it is the one kept, the box of index 0 being suppressed by it.
\<close>

theorem nms_order_ties_counterexample:
  "rev (argsort [1 / 2, 1 / 2]) = [1, 0]
   \<and> nms example_self [(0, 0, 1, 1), (5, 5, 6, 6)] [1 / 2, 1 / 2] = Inr [1, 0]
   \<and> nms example_self [(0, 0, 10, 10), (0, 0, 10, 10)] [1 / 2, 1 / 2] = Inr [1]"
  by (simp add: example_self_def nms_def argsort_def nms_loop_greedy ovr_def ovr_le_def
        inter_def areas_def)

text \<open>
  C3, amended. On at most 17 boxes with as many scores, \<^verbatim>\<open>nms\<close> runs its loop on the
  candidate order that lists every index once by descending score and, among exactly
  equal scores, by descending index: the later box of the input comes first. So among
  kept boxes of equal score the larger index was selected earlier, the first kept box
  is the last of the input among those of maximal score, and a discarded box was
  suppressed by a kept box that precedes it in that order (a higher score, or the same
  score and a larger index). On more than 17 boxes numpy's sort partitions, and nothing
  is stated about the order of equal scores.
\<close>

theorem nms_ties_later_first:
  assumes len: "length dets = length scores" and short: "length scores \<le> 17"
  shows "\<exists>order keep.
           nms self dets scores = Inr keep
           \<and> keep = nms_loop (nms_thresh self) dets [] order
           \<and> length order = length scores \<and> set order = {0..<length scores}
           \<and> (\<forall>p q. p < q \<and> q < length scores \<longrightarrow>
                 scores ! (order ! q) \<le> scores ! (order ! p)
                 \<and> (scores ! (order ! p) = scores ! (order ! q) \<longrightarrow> order ! q < order ! p))
           \<and> (\<forall>p q. p < q \<and> q < length keep \<and> scores ! (keep ! p) = scores ! (keep ! q) \<longrightarrow>
                 keep ! q < keep ! p)
           \<and> (\<forall>j < length scores. keep \<noteq> [] \<and> (scores ! j = scores ! hd keep \<longrightarrow> j \<le> hd keep))
           \<and> (\<forall>j < length scores. j \<notin> set keep \<longrightarrow>
                 (\<exists>i \<in> set keep. \<not> ovr_le (ovr dets i j) (nms_thresh self)
                    \<and> (scores ! j < scores ! i \<or> (scores ! i = scores ! j \<and> j < i))))"
proof -
  define thr where "thr = nms_thresh self"
  define order where "order = rev (argsort scores)"
  define keep where "keep = greedy thr dets order"
  let ?R = "\<lambda>a b. scores ! b \<le> scores ! a \<and> (scores ! a = scores ! b \<longrightarrow> b < a)"
  have run: "nms self dets scores = Inr keep"
    using len by (simp add: nms_def nms_loop_greedy keep_def thr_def order_def)
  have loop: "keep = nms_loop thr dets [] order"
    by (simp add: nms_loop_greedy keep_def)
  have lo: "length order = length scores" by (simp add: order_def length_argsort)
  have so: "set order = {0..<length scores}" by (simp add: order_def set_argsort)
  have sorted_order: "sorted_wrt ?R order" unfolding order_def using short by (rule rev_argsort_order)
  then have sorted_keep: "sorted_wrt ?R keep" unfolding keep_def by (rule greedy_sorted_wrt)
  have ord: "scores ! (order ! q) \<le> scores ! (order ! p)
      \<and> (scores ! (order ! p) = scores ! (order ! q) \<longrightarrow> order ! q < order ! p)"
    if "p < q \<and> q < length scores" for p q
  proof -
    from that have "p < q" "q < length order" by (simp_all add: lo)
    then show ?thesis by (rule sorted_wrt_nth_less [OF sorted_order])
  qed
  have kp: "keep ! q < keep ! p"
    if "p < q \<and> q < length keep \<and> scores ! (keep ! p) = scores ! (keep ! q)" for p q
  proof -
    from that have "p < q" "q < length keep" by simp_all
    then have "?R (keep ! p) (keep ! q)" by (rule sorted_wrt_nth_less [OF sorted_keep])
    with that show ?thesis by simp
  qed
  have first: "keep \<noteq> [] \<and> (scores ! j = scores ! hd keep \<longrightarrow> j \<le> hd keep)"
    if j: "j < length scores" for j
  proof -
    from j so have jo: "j \<in> set order" by simp
    then have ne: "order \<noteq> []" by auto
    then have k: "keep \<noteq> []" "hd keep = hd order" unfolding keep_def by (simp_all add: greedy_hd)
    from sorted_order jo have "j = hd order \<or> ?R (hd order) j" by (rule sorted_wrt_hd_rel)
    then show ?thesis using k by auto
  qed
  have disc: "\<exists>i \<in> set keep. \<not> ovr_le (ovr dets i j) thr
        \<and> (scores ! j < scores ! i \<or> (scores ! i = scores ! j \<and> j < i))"
    if j: "j < length scores" and out: "j \<notin> set keep" for j
  proof -
    from j so have "j \<in> set order" by simp
    with sorted_order have "\<exists>i \<in> set (greedy thr dets order). ?R i j \<and> \<not> ovr_le (ovr dets i j) thr"
      using out unfolding keep_def by (rule greedy_discarded)
    then obtain i where i: "i \<in> set keep" "?R i j" "\<not> ovr_le (ovr dets i j) thr"
      unfolding keep_def by blast
    from i(2) have "scores ! j < scores ! i \<or> (scores ! i = scores ! j \<and> j < i)" by auto
    with i(1,3) show ?thesis by blast
  qed
  show ?thesis
  proof (intro exI conjI)
    show "nms self dets scores = Inr keep" by (rule run)
    show "keep = nms_loop (nms_thresh self) dets [] order" using loop by (simp only: thr_def)
    show "length order = length scores" by (rule lo)
    show "set order = {0..<length scores}" by (rule so)
    show "\<forall>p q. p < q \<and> q < length scores \<longrightarrow>
        scores ! (order ! q) \<le> scores ! (order ! p)
        \<and> (scores ! (order ! p) = scores ! (order ! q) \<longrightarrow> order ! q < order ! p)"
      using ord by blast
    show "\<forall>p q. p < q \<and> q < length keep \<and> scores ! (keep ! p) = scores ! (keep ! q) \<longrightarrow>
        keep ! q < keep ! p"
      using kp by blast
    show "\<forall>j < length scores. keep \<noteq> [] \<and> (scores ! j = scores ! hd keep \<longrightarrow> j \<le> hd keep)"
      using first by blast
    show "\<forall>j < length scores. j \<notin> set keep \<longrightarrow>
        (\<exists>i \<in> set keep. \<not> ovr_le (ovr dets i j) (nms_thresh self)
           \<and> (scores ! j < scores ! i \<or> (scores ! i = scores ! j \<and> j < i)))"
      using disc unfolding thr_def by blast
  qed
qed

text \<open>
  Two identical boxes with equal scores: the box of index 1 is kept and suppresses the
  box of index 0.
\<close>

theorem nms_ties_later_first_witness:
  "length ([(0, 0, 10, 10), (0, 0, 10, 10)] :: box list) = length [1 / 2, 1 / 2 :: real]
   \<and> length [1 / 2, 1 / 2 :: real] \<le> 17
   \<and> nms example_self [(0, 0, 10, 10), (0, 0, 10, 10)] [1 / 2, 1 / 2] = Inr [1]
   \<and> (0 :: nat) < length [1 / 2, 1 / 2 :: real] \<and> (0 :: nat) \<notin> set [1]
   \<and> (\<exists>i \<in> set [1 :: nat]. \<not> ovr_le (ovr [(0, 0, 10, 10), (0, 0, 10, 10)] i 0) (nms_thresh example_self)
         \<and> ([1 / 2, 1 / 2 :: real] ! 0 < [1 / 2, 1 / 2] ! i
             \<or> ([1 / 2, 1 / 2 :: real] ! i = [1 / 2, 1 / 2] ! 0 \<and> 0 < i)))"
proof -
  let ?dets = "([(0, 0, 10, 10), (0, 0, 10, 10)] :: box list)"
  let ?scores = "[1 / 2, 1 / 2 :: real]"
  have len: "length ?dets = length ?scores" by simp
  have short: "length ?scores \<le> 17" by simp
  from nms_ties_later_first [OF len short, of example_self]
  obtain keep where k: "nms example_self ?dets ?scores = Inr keep"
    and d: "\<forall>j < length ?scores. j \<notin> set keep \<longrightarrow>
              (\<exists>i \<in> set keep. \<not> ovr_le (ovr ?dets i j) (nms_thresh example_self)
                 \<and> (?scores ! j < ?scores ! i \<or> (?scores ! i = ?scores ! j \<and> j < i)))"
    by blast
  from k have keep: "keep = [1]" by (simp only: nms_identical_example sum.inject)
  have j: "(0 :: nat) < length ?scores" and out: "(0 :: nat) \<notin> set [1]" by simp_all
  from d j out have s: "\<exists>i \<in> set [1 :: nat]. \<not> ovr_le (ovr ?dets i 0) (nms_thresh example_self)
      \<and> (?scores ! 0 < ?scores ! i \<or> (?scores ! i = ?scores ! 0 \<and> 0 < i))"
    unfolding keep by blast
  from len short k j out s show ?thesis unfolding keep by (intro conjI)
qed

subsection \<open>Confidence filter and output order\<close>

text \<open>
  The 0/1 array of \<^verbatim>\<open>postprocess\<close>: after \<^verbatim>\<open>keep[c_keep] = 1\<close>, \<^verbatim>\<open>np.where(keep > 0)\<close>
  lists, in ascending order, the positions that occur in \<^verbatim>\<open>c_keep\<close>.
\<close>

lemma mask_length: "length (fold (\<lambda>i k. k[i := v]) c m) = length m"
  by (induction c arbitrary: m) simp_all

lemma mask_nth:
  "j < length m \<Longrightarrow> fold (\<lambda>i k. k[i := v]) c m ! j = (if j \<in> set c then v else m ! j)"
proof (induction c arbitrary: m)
  case Nil
  show ?case by simp
next
  case (Cons a c)
  from Cons.prems have "j < length (m[a := v])" by simp
  from Cons.IH [OF this] Cons.prems show ?case by (auto simp: nth_list_update)
qed

lemma mask_where:
  "[i \<leftarrow> [0..<length (fold (\<lambda>i k. k[i := 1]) c (replicate n (0 :: nat)))].
       0 < fold (\<lambda>i k. k[i := 1]) c (replicate n (0 :: nat)) ! i]
     = [i \<leftarrow> [0..<n]. i \<in> set c]"
proof -
  let ?mask = "fold (\<lambda>i k. k[i := 1]) c (replicate n (0 :: nat))"
  have len: "length ?mask = n" by (simp only: mask_length length_replicate)
  have "[i \<leftarrow> [0..<n]. 0 < ?mask ! i] = [i \<leftarrow> [0..<n]. i \<in> set c]"
  proof (rule filter_cong [OF refl])
    fix i assume "i \<in> set [0..<n]"
    then have "i < length (replicate n (0 :: nat))" by simp
    then have "?mask ! i = (if i \<in> set c then 1 else replicate n (0 :: nat) ! i)"
      by (rule mask_nth)
    with \<open>i \<in> set [0..<n]\<close> show "(0 < ?mask ! i) = (i \<in> set c)" by simp
  qed
  then show ?thesis unfolding len .
qed

lemma nms_indices_valid:
  "length dets = length scores \<Longrightarrow>
     \<forall>i \<in> set (greedy thr dets (rev (argsort scores))). i < length dets"
proof
  fix i assume len: "length dets = length scores"
    and "i \<in> set (greedy thr dets (rev (argsort scores)))"
  then have "i \<in> set (rev (argsort scores))" using greedy_set by (rule_tac rev_subsetD)
  then show "i < length dets" using len by (simp add: set_argsort)
qed

lemma postprocess_ok:
  assumes ok: "\<forall>i \<in> set (conf_keep self all_conf). i < length all_local"
  shows "postprocess self all_local all_conf =
     (let keep0 = conf_keep self all_conf;
          bbox_pred = map (\<lambda>i. all_local ! i) keep0;
          scores = map (\<lambda>i. all_conf ! i) keep0;
          c_keep = greedy (nms_thresh self) bbox_pred (rev (argsort scores));
          keep = [i \<leftarrow> [0..<length keep0]. i \<in> set c_keep]
      in Inr (map (\<lambda>i. bbox_pred ! i) keep, map (\<lambda>i. scores ! i) keep))"
proof -
  define keep0 where "keep0 = conf_keep self all_conf"
  define bbox_pred where "bbox_pred = map (\<lambda>i. all_local ! i) keep0"
  define scores where "scores = map (\<lambda>i. all_conf ! i) keep0"
  define c_keep where "c_keep = greedy (nms_thresh self) bbox_pred (rev (argsort scores))"
  have len: "length bbox_pred = length scores" by (simp add: bbox_pred_def scores_def)
  have run: "nms self bbox_pred scores = Inr c_keep"
    unfolding c_keep_def using len by (rule nms_run)
  have valid: "\<not> (\<exists>i \<in> set c_keep. length bbox_pred \<le> i)"
    using nms_indices_valid [OF len, of "nms_thresh self"] by (auto simp: c_keep_def)
  have no_err: "\<not> (\<exists>i \<in> set keep0. length all_local \<le> i)"
    using ok by (auto simp: keep0_def)
  have "postprocess self all_local all_conf =
      (let mask = fold (\<lambda>i k. k[i := 1]) c_keep (replicate (length bbox_pred) (0 :: nat));
           keep = [i \<leftarrow> [0..<length mask]. 0 < mask ! i]
       in Inr (map (\<lambda>i. bbox_pred ! i) keep, map (\<lambda>i. scores ! i) keep))"
    unfolding postprocess_def conf_keep_def [symmetric] keep0_def [symmetric] Let_def
      bbox_pred_def [symmetric] scores_def [symmetric]
    using no_err valid run by simp
  also have "\<dots> = (let keep = [i \<leftarrow> [0..<length keep0]. i \<in> set c_keep]
       in Inr (map (\<lambda>i. bbox_pred ! i) keep, map (\<lambda>i. scores ! i) keep))"
    unfolding Let_def mask_where by (simp add: bbox_pred_def)
  finally show ?thesis
    unfolding keep0_def bbox_pred_def scores_def c_keep_def Let_def .
qed

lemma postprocess_error:
  assumes "\<not> (\<forall>i \<in> set (conf_keep self all_conf). i < length all_local)"
  shows "postprocess self all_local all_conf = Inl IndexError"
proof -
  from assms have "\<exists>i \<in> set (conf_keep self all_conf). length all_local \<le> i"
    by (auto simp: not_less)
  then show ?thesis
    unfolding postprocess_def conf_keep_def [symmetric] Let_def by simp
qed

text \<open>
  The confidence filter, by index and by pair.
\<close>

lemma zip_as_map:
  "length xs = length ys \<Longrightarrow> zip xs ys = map (\<lambda>i. (xs ! i, ys ! i)) [0..<length ys]"
  by (rule nth_equalityI) simp_all

lemma conf_pairs_eq:
  assumes len: "length all_local = length all_conf"
  shows "conf_pairs self all_local all_conf =
     map (\<lambda>i. (all_local ! i, all_conf ! i)) (conf_keep self all_conf)"
  unfolding conf_pairs_def conf_keep_def zip_as_map [OF len]
  by (simp add: filter_map comp_def)

lemma conf_keep_valid: "\<forall>i \<in> set (conf_keep self all_conf). i < length all_conf"
  by (simp add: conf_keep_def)

lemma conf_keep_sorted: "sorted_wrt (<) (conf_keep self all_conf)"
  unfolding conf_keep_def by (rule sorted_wrt_filter) simp

lemma postprocess_pairs:
  assumes len: "length all_local = length all_conf"
  shows "postprocess self all_local all_conf =
     (let F = conf_pairs self all_local all_conf;
          c_keep = greedy (nms_thresh self) (map fst F) (rev (argsort (map snd F)));
          keep = [i \<leftarrow> [0..<length F]. i \<in> set c_keep]
      in Inr (map (\<lambda>i. fst (F ! i)) keep, map (\<lambda>i. snd (F ! i)) keep))"
proof -
  have ok: "\<forall>i \<in> set (conf_keep self all_conf). i < length all_local"
    using conf_keep_valid [of self all_conf] len by simp
  have f1: "map fst (conf_pairs self all_local all_conf)
      = map (\<lambda>i. all_local ! i) (conf_keep self all_conf)"
    by (simp add: conf_pairs_eq [OF len] comp_def)
  have f2: "map snd (conf_pairs self all_local all_conf)
      = map (\<lambda>i. all_conf ! i) (conf_keep self all_conf)"
    by (simp add: conf_pairs_eq [OF len] comp_def)
  have l: "length (conf_pairs self all_local all_conf) = length (conf_keep self all_conf)"
    by (simp add: conf_pairs_eq [OF len])
  have n1: "map (\<lambda>i. fst (conf_pairs self all_local all_conf ! i)) ks
      = map (\<lambda>i. map (\<lambda>i. all_local ! i) (conf_keep self all_conf) ! i) ks"
    if "\<forall>i \<in> set ks. i < length (conf_keep self all_conf)" for ks
    using that by (simp add: conf_pairs_eq [OF len])
  have n2: "map (\<lambda>i. snd (conf_pairs self all_local all_conf ! i)) ks
      = map (\<lambda>i. map (\<lambda>i. all_conf ! i) (conf_keep self all_conf) ! i) ks"
    if "\<forall>i \<in> set ks. i < length (conf_keep self all_conf)" for ks
    using that by (simp add: conf_pairs_eq [OF len])
  show ?thesis
    unfolding postprocess_ok [OF ok] Let_def f1 f2 l
    by (simp add: n1 n2)
qed

text \<open>
  C2, as stated, fails: for two disjoint boxes with scores 0.5 and 0.9 \<^verbatim>\<open>nms\<close> selects
  index 1 first, but \<^verbatim>\<open>postprocess\<close> returns the box of index 0 first.
\<close>

theorem postprocess_order_counterexample:
  "nms example_self [(0, 0, 10, 10), (100, 100, 110, 110)] [1 / 2, 9 / 10] = Inr [1, 0]
   \<and> postprocess example_self [(0, 0, 10, 10), (100, 100, 110, 110)] [1 / 2, 9 / 10]
       = Inr ([(0, 0, 10, 10), (100, 100, 110, 110)], [1 / 2, 9 / 10])"
  by (simp add: postprocess_def example_self_def nms_def argsort_def nms_loop_greedy ovr_def
        ovr_le_def inter_def areas_def)

text \<open>
  C2, amended. \<^verbatim>\<open>postprocess\<close> returns the boxes and scores at the indices \<^verbatim>\<open>nms\<close> kept,
  in ascending order of their index in the input arrays, whatever the order in which
  \<^verbatim>\<open>nms\<close> selected them: \<open>sel\<close> lists the input indices of the kept detections and is
  strictly increasing.
\<close>

theorem postprocess_input_order:
  assumes len: "length all_local = length all_conf"
  shows "\<exists>c_keep sel.
           nms self (map (\<lambda>i. all_local ! i) (conf_keep self all_conf))
                    (map (\<lambda>i. all_conf ! i) (conf_keep self all_conf)) = Inr c_keep
           \<and> set sel = (\<lambda>p. conf_keep self all_conf ! p) ` set c_keep
           \<and> sorted_wrt (<) sel
           \<and> postprocess self all_local all_conf
               = Inr (map (\<lambda>i. all_local ! i) sel, map (\<lambda>i. all_conf ! i) sel)"
proof -
  define keep0 where "keep0 = conf_keep self all_conf"
  define bbox_pred where "bbox_pred = map (\<lambda>i. all_local ! i) keep0"
  define scores where "scores = map (\<lambda>i. all_conf ! i) keep0"
  define c_keep where "c_keep = greedy (nms_thresh self) bbox_pred (rev (argsort scores))"
  define ks where "ks = [p \<leftarrow> [0..<length keep0]. p \<in> set c_keep]"
  define sel where "sel = map (\<lambda>p. keep0 ! p) ks"
  have l: "length bbox_pred = length scores" by (simp add: bbox_pred_def scores_def)
  have run: "nms self bbox_pred scores = Inr c_keep"
    unfolding c_keep_def using l by (rule nms_run)
  have valid: "\<forall>i \<in> set c_keep. i < length keep0"
    using nms_indices_valid [OF l, of "nms_thresh self"]
    by (simp add: c_keep_def bbox_pred_def)
  have ks_set: "set ks = set c_keep" using valid by (auto simp: ks_def)
  have ks_lt: "\<forall>p \<in> set ks. p < length keep0" by (simp add: ks_def)
  have set_sel: "set sel = (\<lambda>p. keep0 ! p) ` set c_keep"
    by (simp add: sel_def ks_set)
  have ks_sorted: "sorted_wrt (<) ks" unfolding ks_def by (rule sorted_wrt_filter) simp
  have keep0_sorted: "sorted_wrt (<) keep0" unfolding keep0_def by (rule conf_keep_sorted)
  have "sorted_wrt (\<lambda>a b. keep0 ! a < keep0 ! b) ks"
    unfolding sorted_wrt_iff_nth_less
  proof (intro allI impI)
    fix i j assume ij: "i < j" and j: "j < length ks"
    from ij j have "ks ! i < ks ! j" by (rule sorted_wrt_nth_less [OF ks_sorted])
    moreover from j have "ks ! j < length keep0" using ks_lt by simp
    ultimately show "keep0 ! (ks ! i) < keep0 ! (ks ! j)"
      by (rule sorted_wrt_nth_less [OF keep0_sorted])
  qed
  then have sel_sorted: "sorted_wrt (<) sel" by (simp add: sel_def sorted_wrt_map)
  have ok: "\<forall>i \<in> set (conf_keep self all_conf). i < length all_local"
    using conf_keep_valid [of self all_conf] len by simp
  have b: "map (\<lambda>i. bbox_pred ! i) ks = map (\<lambda>i. all_local ! i) sel"
    using ks_lt by (simp add: sel_def bbox_pred_def)
  have s: "map (\<lambda>i. scores ! i) ks = map (\<lambda>i. all_conf ! i) sel"
    using ks_lt by (simp add: sel_def scores_def)
  have "postprocess self all_local all_conf
      = Inr (map (\<lambda>i. bbox_pred ! i) ks, map (\<lambda>i. scores ! i) ks)"
    unfolding postprocess_ok [OF ok] Let_def
    by (simp only: keep0_def bbox_pred_def scores_def c_keep_def ks_def)
  then have post: "postprocess self all_local all_conf
      = Inr (map (\<lambda>i. all_local ! i) sel, map (\<lambda>i. all_conf ! i) sel)"
    by (simp only: b s)
  show ?thesis
  proof (intro exI conjI)
    show "nms self (map (\<lambda>i. all_local ! i) (conf_keep self all_conf))
        (map (\<lambda>i. all_conf ! i) (conf_keep self all_conf)) = Inr c_keep"
      using run by (simp only: bbox_pred_def scores_def keep0_def)
    show "set sel = (\<lambda>p. conf_keep self all_conf ! p) ` set c_keep"
      using set_sel by (simp only: keep0_def)
    show "sorted_wrt (<) sel" by (rule sel_sorted)
    show "postprocess self all_local all_conf
        = Inr (map (\<lambda>i. all_local ! i) sel, map (\<lambda>i. all_conf ! i) sel)"
      by (rule post)
  qed
qed

text \<open>
  The amended statement at the input of the counterexample.
\<close>

theorem postprocess_input_order_witness:
  "length ([(0, 0, 10, 10), (100, 100, 110, 110)] :: box list) = length [1 / 2, 9 / 10 :: real]
   \<and> (\<exists>sel. sorted_wrt (<) sel
          \<and> postprocess example_self [(0, 0, 10, 10), (100, 100, 110, 110)] [1 / 2, 9 / 10]
               = Inr (map (\<lambda>i. [(0, 0, 10, 10), (100, 100, 110, 110)] ! i) sel,
                      map (\<lambda>i. [1 / 2, 9 / 10] ! i) sel))"
proof -
  have len: "length ([(0, 0, 10, 10), (100, 100, 110, 110)] :: box list)
      = length [1 / 2, 9 / 10 :: real]" by simp
  from postprocess_input_order [OF len, of example_self] len show ?thesis by blast
qed

lemma conf_pairs_score: "(b, s) \<in> set (conf_pairs self all_local all_conf) \<Longrightarrow> conf_thresh self \<le> s"
  by (simp add: conf_pairs_def)

lemma conf_pairs_empty:
  "\<forall>s \<in> set all_conf. s < conf_thresh self \<Longrightarrow> conf_pairs self all_local all_conf = []"
proof -
  assume low: "\<forall>s \<in> set all_conf. s < conf_thresh self"
  have "\<forall>x \<in> set (zip all_local all_conf). \<not> (case x of (b, s) \<Rightarrow> conf_thresh self \<le> s)"
  proof
    fix x assume "x \<in> set (zip all_local all_conf)"
    then have "(fst x, snd x) \<in> set (zip all_local all_conf)" by simp
    then have "snd x \<in> set all_conf" by (rule set_zip_rightD)
    with low have "snd x < conf_thresh self" by simp
    then show "\<not> (case x of (b, s) \<Rightarrow> conf_thresh self \<le> s)" by (cases x) simp
  qed
  then show ?thesis unfolding conf_pairs_def by (simp only: filter_False)
qed

text \<open>
  C5. For a box array and a score array of equal length, \<^verbatim>\<open>postprocess\<close> returns without
  error; \<^verbatim>\<open>nms\<close> runs on exactly the (box, score) pairs with score at least
  \<^verbatim>\<open>conf_thresh\<close>, in input order, and the output pairs are those pairs at the kept
  positions, so every returned score is at least \<^verbatim>\<open>conf_thresh\<close>; when every score is
  below the threshold the result is empty.
\<close>

theorem postprocess_conf_filter:
  assumes len: "length all_local = length all_conf"
  shows "\<exists>bs ss c_keep.
           postprocess self all_local all_conf = Inr (bs, ss)
           \<and> nms self (map fst (conf_pairs self all_local all_conf))
                       (map snd (conf_pairs self all_local all_conf)) = Inr c_keep
           \<and> zip bs ss = map (\<lambda>i. conf_pairs self all_local all_conf ! i)
                            [i \<leftarrow> [0..<length (conf_pairs self all_local all_conf)]. i \<in> set c_keep]
           \<and> length bs = length ss
           \<and> (\<forall>s \<in> set ss. conf_thresh self \<le> s)
           \<and> ((\<forall>s \<in> set all_conf. s < conf_thresh self) \<longrightarrow> bs = [] \<and> ss = [])"
proof -
  define F where "F = conf_pairs self all_local all_conf"
  define c_keep where "c_keep = greedy (nms_thresh self) (map fst F) (rev (argsort (map snd F)))"
  define ks where "ks = [i \<leftarrow> [0..<length F]. i \<in> set c_keep]"
  define bs where "bs = map (\<lambda>i. fst (F ! i)) ks"
  define ss where "ss = map (\<lambda>i. snd (F ! i)) ks"
  have post: "postprocess self all_local all_conf = Inr (bs, ss)"
    unfolding postprocess_pairs [OF len] Let_def
    by (simp only: F_def c_keep_def ks_def bs_def ss_def)
  have l: "length (map fst F) = length (map snd F)" by simp
  have run: "nms self (map fst F) (map snd F) = Inr c_keep"
    unfolding c_keep_def using l by (rule nms_run)
  have z: "zip bs ss = map (\<lambda>i. F ! i) ks"
    by (simp add: bs_def ss_def zip_map_map zip_same_conv_map)
  have ll: "length bs = length ss" by (simp add: bs_def ss_def)
  have sc: "\<forall>s \<in> set ss. conf_thresh self \<le> s"
  proof
    fix s assume "s \<in> set ss"
    then obtain i where i: "i \<in> set ks" and s: "s = snd (F ! i)" by (auto simp: ss_def)
    from i have "i < length F" by (simp add: ks_def)
    then have "F ! i \<in> set F" by (rule nth_mem)
    then have "(fst (F ! i), snd (F ! i)) \<in> set (conf_pairs self all_local all_conf)"
      by (simp add: F_def)
    then show "conf_thresh self \<le> s" unfolding s by (rule conf_pairs_score)
  qed
  have emp: "bs = [] \<and> ss = []" if "\<forall>s \<in> set all_conf. s < conf_thresh self"
  proof -
    from that have "F = []" unfolding F_def by (rule conf_pairs_empty)
    then show ?thesis by (simp add: bs_def ss_def ks_def)
  qed
  show ?thesis
  proof (intro exI conjI impI)
    show "postprocess self all_local all_conf = Inr (bs, ss)" by (rule post)
    show "nms self (map fst (conf_pairs self all_local all_conf))
        (map snd (conf_pairs self all_local all_conf)) = Inr c_keep"
      using run by (simp only: F_def)
    show "zip bs ss = map (\<lambda>i. conf_pairs self all_local all_conf ! i)
        [i \<leftarrow> [0..<length (conf_pairs self all_local all_conf)]. i \<in> set c_keep]"
      using z by (simp only: F_def ks_def)
    show "length bs = length ss" by (rule ll)
    show "\<forall>s \<in> set ss. conf_thresh self \<le> s" by (rule sc)
  next
    assume a: "\<forall>s \<in> set all_conf. s < conf_thresh self"
    from emp [OF a] show "bs = []" by simp
    from emp [OF a] show "ss = []" by simp
  qed
qed

text \<open>
  Two scores below the default threshold 0.01: the result is empty.
\<close>

theorem postprocess_conf_filter_witness:
  "length ([(0, 0, 10, 10), (1, 1, 9, 9)] :: box list) = length [1 / 1000, 1 / 200 :: real]
   \<and> 1 / 1000 < conf_thresh example_self \<and> 1 / 200 < conf_thresh example_self
   \<and> postprocess example_self [(0, 0, 10, 10), (1, 1, 9, 9)] [1 / 1000, 1 / 200] = Inr ([], [])"
proof -
  have len: "length ([(0, 0, 10, 10), (1, 1, 9, 9)] :: box list) = length [1 / 1000, 1 / 200 :: real]"
    by simp
  have low: "\<forall>s \<in> set [1 / 1000, 1 / 200 :: real]. s < conf_thresh example_self"
    by (simp add: example_self_def)
  from postprocess_conf_filter [OF len, of example_self] low
  have "postprocess example_self [(0, 0, 10, 10), (1, 1, 9, 9)] [1 / 1000, 1 / 200] = Inr ([], [])"
    by blast
  moreover have "1 / 1000 < conf_thresh example_self" "1 / 200 < conf_thresh example_self"
    by (simp_all add: example_self_def)
  ultimately show ?thesis using len by (intro conjI)
qed

subsection \<open>Errors of construction and postprocessing\<close>

text \<open>
  Errors of construction and of \<^verbatim>\<open>postprocess\<close>. The constructor stores the thresholds
  without looking at them; its only failure in the model is the reshape of the anchors.
\<close>

lemma view_anchors_ok:
  "length anchors mod 3 = 0 \<Longrightarrow> \<exists>rows. view_anchors anchors = Inr rows"
proof -
  assume "length anchors mod 3 = 0"
  then have "length anchors * 2 = 3 * (length anchors div 3) * 2" by arith
  then show ?thesis by (simp add: view_anchors_def Let_def)
qed

lemma view_anchors_error:
  "length anchors mod 3 \<noteq> 0 \<Longrightarrow> view_anchors anchors = Inl RuntimeError"
proof -
  assume "length anchors mod 3 \<noteq> 0"
  then have "length anchors * 2 \<noteq> 3 * (length anchors div 3) * 2" by arith
  then show ?thesis by (simp add: view_anchors_def Let_def)
qed

lemma init_ok:
  assumes "length anchors mod 3 = 0"
  shows "\<exists>m. MiniYOLAF_init sz ct nt anchors = Inr m \<and> conf_thresh m = ct \<and> nms_thresh m = nt"
proof -
  from view_anchors_ok [OF assms] obtain rows where "view_anchors anchors = Inr rows" ..
  then show ?thesis
    by (simp add: MiniYOLAF_init_def Let_def split: prod.split)
qed

lemma init_error:
  "length anchors mod 3 \<noteq> 0 \<Longrightarrow> MiniYOLAF_init sz ct nt anchors = Inl RuntimeError"
  by (simp add: MiniYOLAF_init_def view_anchors_error)

lemma conf_keep_out_of_range:
  "(\<not> (\<forall>i \<in> set (conf_keep self all_conf). i < length all_local))
     = (\<exists>i < length all_conf. conf_thresh self \<le> all_conf ! i \<and> length all_local \<le> i)"
  by (auto simp: conf_keep_def not_less)

text \<open>
  C4, as stated, fails: construction with \<^verbatim>\<open>conf_thresh = 2\<close> and \<^verbatim>\<open>nms_thresh = -1\<close>
  succeeds and stores both, and \<^verbatim>\<open>postprocess\<close> on two boxes and one score returns a
  result.
\<close>

theorem no_config_or_shape_error_counterexample:
  "MiniYOLAF_init 8 2 (- 1) [(10, 14), (20, 28), (40, 56)] =
     Inr \<lparr>input_size = 8, conf_thresh = 2, nms_thresh = - 1, stride = [8, 16, 32],
          anchor_size = [[(10, 14)], [(20, 28)], [(40, 56)]], anchor_number = 1,
          grid_cell = \<lparr>t_hw = 1, t_an = 1, t_elems = [(0, 0)]\<rparr>,
          stride_tensor = \<lparr>t_hw = 1, t_an = 1, t_elems = [(8, 8)]\<rparr>,
          all_anchors_wh = \<lparr>t_hw = 1, t_an = 1, t_elems = [(10, 14)]\<rparr>,
          scale_torch = 8\<rparr>
   \<and> postprocess example_self [(0, 0, 10, 10), (100, 100, 110, 110)] [1 / 2]
       = Inr ([(0, 0, 10, 10)], [1 / 2])"
proof (rule conjI)
  show "MiniYOLAF_init 8 2 (- 1) [(10, 14), (20, 28), (40, 56)] =
     Inr \<lparr>input_size = 8, conf_thresh = 2, nms_thresh = - 1, stride = [8, 16, 32],
          anchor_size = [[(10, 14)], [(20, 28)], [(40, 56)]], anchor_number = 1,
          grid_cell = \<lparr>t_hw = 1, t_an = 1, t_elems = [(0, 0)]\<rparr>,
          stride_tensor = \<lparr>t_hw = 1, t_an = 1, t_elems = [(8, 8)]\<rparr>,
          all_anchors_wh = \<lparr>t_hw = 1, t_an = 1, t_elems = [(10, 14)]\<rparr>,
          scale_torch = 8\<rparr>"
    by (simp add: MiniYOLAF_init_def view_anchors_def create_grid_def grid_of_scale_def
          meshgrid_def stack_view_def cat_def upt_rec)
  show "postprocess example_self [(0, 0, 10, 10), (100, 100, 110, 110)] [1 / 2]
       = Inr ([(0, 0, 10, 10)], [1 / 2])"
    by (simp add: postprocess_def example_self_def nms_def argsort_def nms_loop_greedy ovr_def
          ovr_le_def inter_def areas_def)
qed

text \<open>
  C4, amended. Neither the constructor nor \<^verbatim>\<open>postprocess\<close> checks its arguments, and
  neither ever raises \<^verbatim>\<open>ConfigError\<close> or \<^verbatim>\<open>ShapeError\<close>. Construction stores any
  thresholds as given and fails only, with \<^verbatim>\<open>RuntimeError\<close>, when the number of anchor
  pairs is not a multiple of three. \<^verbatim>\<open>postprocess\<close> raises \<^verbatim>\<open>IndexError\<close> exactly when
  a score that passes the confidence filter sits at an index past the last box, and
  returns a result otherwise.
\<close>

theorem init_postprocess_errors:
  "(length anchors mod 3 = 0 \<longrightarrow>
      (\<exists>m. MiniYOLAF_init sz ct nt anchors = Inr m \<and> conf_thresh m = ct \<and> nms_thresh m = nt))
   \<and> (length anchors mod 3 \<noteq> 0 \<longrightarrow> MiniYOLAF_init sz ct nt anchors = Inl RuntimeError)
   \<and> ((\<exists>i < length all_conf. conf_thresh self \<le> all_conf ! i \<and> length all_local \<le> i) \<longrightarrow>
        postprocess self all_local all_conf = Inl IndexError)
   \<and> (\<not> (\<exists>i < length all_conf. conf_thresh self \<le> all_conf ! i \<and> length all_local \<le> i) \<longrightarrow>
        (\<exists>r. postprocess self all_local all_conf = Inr r))
   \<and> MiniYOLAF_init sz ct nt anchors \<noteq> Inl ConfigError
   \<and> MiniYOLAF_init sz ct nt anchors \<noteq> Inl ShapeError
   \<and> postprocess self all_local all_conf \<noteq> Inl ConfigError
   \<and> postprocess self all_local all_conf \<noteq> Inl ShapeError"
proof -
  let ?bad = "\<exists>i < length all_conf. conf_thresh self \<le> all_conf ! i \<and> length all_local \<le> i"
  have i1: "length anchors mod 3 = 0 \<longrightarrow>
      (\<exists>m. MiniYOLAF_init sz ct nt anchors = Inr m \<and> conf_thresh m = ct \<and> nms_thresh m = nt)"
    by (simp add: init_ok)
  have i2: "length anchors mod 3 \<noteq> 0 \<longrightarrow> MiniYOLAF_init sz ct nt anchors = Inl RuntimeError"
    by (simp add: init_error)
  have p1: "?bad \<longrightarrow> postprocess self all_local all_conf = Inl IndexError"
  proof
    assume ?bad
    then have "\<not> (\<forall>i \<in> set (conf_keep self all_conf). i < length all_local)"
      by (simp only: conf_keep_out_of_range)
    then show "postprocess self all_local all_conf = Inl IndexError" by (rule postprocess_error)
  qed
  have p2: "\<not> ?bad \<longrightarrow> (\<exists>r. postprocess self all_local all_conf = Inr r)"
  proof
    assume "\<not> ?bad"
    then have "\<forall>i \<in> set (conf_keep self all_conf). i < length all_local"
      using conf_keep_out_of_range [of self all_conf all_local] by blast
    then show "\<exists>r. postprocess self all_local all_conf = Inr r"
      by (simp add: postprocess_ok Let_def)
  qed
  have i3: "MiniYOLAF_init sz ct nt anchors \<noteq> Inl ConfigError
      \<and> MiniYOLAF_init sz ct nt anchors \<noteq> Inl ShapeError"
    using i1 i2 by (cases "length anchors mod 3 = 0") auto
  have p3: "postprocess self all_local all_conf \<noteq> Inl ConfigError
      \<and> postprocess self all_local all_conf \<noteq> Inl ShapeError"
    using p1 p2 by (cases ?bad) auto
  from i1 i2 p1 p2 i3 p3 show ?thesis by (intro conjI) simp_all
qed

text \<open>
  Both branches of construction and of \<^verbatim>\<open>postprocess\<close> at concrete inputs.
\<close>

theorem init_postprocess_errors_witness:
  "length [(10, 14), (20, 28), (40, 56 :: real)] mod 3 = 0
   \<and> (\<exists>m. MiniYOLAF_init 8 2 (- 1) [(10, 14), (20, 28), (40, 56)] = Inr m
          \<and> conf_thresh m = 2 \<and> nms_thresh m = - 1)
   \<and> length [(10, 14), (20, 28), (40, 56), (80, 112 :: real)] mod 3 \<noteq> 0
   \<and> MiniYOLAF_init 8 (1 / 100) (3 / 10) [(10, 14), (20, 28), (40, 56), (80, 112)] = Inl RuntimeError
   \<and> (\<exists>i < length [1 / 2, 1 / 10 :: real].
         conf_thresh example_self \<le> [1 / 2, 1 / 10] ! i \<and> length ([(0, 0, 10, 10)] :: box list) \<le> i)
   \<and> postprocess example_self [(0, 0, 10, 10)] [1 / 2, 1 / 10] = Inl IndexError
   \<and> \<not> (\<exists>i < length [1 / 2 :: real].
         conf_thresh example_self \<le> [1 / 2] ! i
         \<and> length ([(0, 0, 10, 10), (100, 100, 110, 110)] :: box list) \<le> i)
   \<and> (\<exists>r. postprocess example_self [(0, 0, 10, 10), (100, 100, 110, 110)] [1 / 2] = Inr r)"
proof -
  have a3: "length [(10, 14), (20, 28), (40, 56 :: real)] mod 3 = 0" by simp
  have a4: "length [(10, 14), (20, 28), (40, 56), (80, 112 :: real)] mod 3 \<noteq> 0" by simp
  have bad: "\<exists>i < length [1 / 2, 1 / 10 :: real].
      conf_thresh example_self \<le> [1 / 2, 1 / 10] ! i \<and> length ([(0, 0, 10, 10)] :: box list) \<le> i"
    by (rule exI [of _ 1]) (simp add: example_self_def)
  have good: "\<not> (\<exists>i < length [1 / 2 :: real].
      conf_thresh example_self \<le> [1 / 2] ! i
      \<and> length ([(0, 0, 10, 10), (100, 100, 110, 110)] :: box list) \<le> i)"
    by simp
  note t1 = init_postprocess_errors [of "[(10, 14), (20, 28), (40, 56)]" 8 2 "- 1"
      "[1 / 2, 1 / 10]" example_self "[(0, 0, 10, 10)]"]
  note t2 = init_postprocess_errors [of "[(10, 14), (20, 28), (40, 56), (80, 112)]" 8 "1 / 100" "3 / 10"
      "[1 / 2]" example_self "[(0, 0, 10, 10), (100, 100, 110, 110)]"]
  from t1 a3 have c1: "\<exists>m. MiniYOLAF_init 8 2 (- 1) [(10, 14), (20, 28), (40, 56)] = Inr m
      \<and> conf_thresh m = 2 \<and> nms_thresh m = - 1" by blast
  from t2 a4 have c2: "MiniYOLAF_init 8 (1 / 100) (3 / 10) [(10, 14), (20, 28), (40, 56), (80, 112)]
      = Inl RuntimeError" by blast
  from t1 bad have c3: "postprocess example_self [(0, 0, 10, 10)] [1 / 2, 1 / 10] = Inl IndexError"
    by blast
  from t2 good have c4: "\<exists>r. postprocess example_self [(0, 0, 10, 10), (100, 100, 110, 110)] [1 / 2] = Inr r"
    by blast
  from a3 c1 a4 c2 bad c3 good c4 show ?thesis by (intro conjI)
qed

subsection \<open>The anchor grid\<close>

text \<open>
  The anchor grid. Rows of equal length concatenate to a table indexed by
  \<open>row * width + column\<close>.
\<close>

lemma length_concat_uniform:
  "\<forall>r \<in> set rows. length r = w \<Longrightarrow> length (concat rows) = length rows * w"
  by (induction rows) simp_all

lemma nth_concat_uniform:
  "\<forall>r \<in> set rows. length r = w \<Longrightarrow> i < length rows \<Longrightarrow> j < w \<Longrightarrow>
     concat rows ! (i * w + j) = rows ! i ! j"
proof (induction rows arbitrary: i)
  case Nil
  then show ?case by simp
next
  case (Cons r rows)
  show ?case
  proof (cases i)
    case 0
    with Cons.prems show ?thesis by (simp add: nth_append)
  next
    case (Suc i')
    with Cons.prems have "concat rows ! (i' * w + j) = rows ! i' ! j"
      by (intro Cons.IH) simp_all
    moreover have "length r = w" using Cons.prems by simp
    ultimately show ?thesis using Suc by (simp add: nth_append add.assoc)
  qed
qed

lemma cell_index_bound: "y < n \<Longrightarrow> x < n \<Longrightarrow> y * n + x < n * (n :: nat)"
proof -
  assume y: "y < n" and x: "x < n"
  from x have "y * n + x < Suc y * n" by simp
  also from y have "Suc y * n \<le> n * n" by (intro mult_le_mono1) simp
  finally show ?thesis .
qed

lemma row_index_bound: "c < m \<Longrightarrow> k < a \<Longrightarrow> c * a + k < m * (a :: nat)"
proof -
  assume c: "c < m" and k: "k < a"
  from k have "c * a + k < Suc c * a" by simp
  also from c have "Suc c * a \<le> m * a" by (intro mult_le_mono1) simp
  finally show ?thesis .
qed

lemma stack_view_meshgrid:
  "stack_view (snd (meshgrid n n)) (fst (meshgrid n n))
     = \<lparr>t_hw = n * n, t_an = 1, t_elems = cells_of n\<rparr>"
proof -
  have rows: "map2 (\<lambda>rx ry. map2 (\<lambda>x y. (real x, real y)) rx ry)
        (replicate n [0..<n]) (map (\<lambda>i. replicate n i) [0..<n])
      = map (\<lambda>y. map (\<lambda>x. (real x, real y)) [0..<n]) [0..<n]"
    by (rule nth_equalityI) (simp, rule nth_equalityI, simp_all)
  have len: "length (cells_of n) = n * n"
    unfolding cells_of_def by (simp add: length_concat_uniform [where w = n])
  show ?thesis
    unfolding stack_view_def meshgrid_def fst_conv snd_conv rows Let_def
    by (simp add: len cells_of_def [symmetric])
qed

lemma length_cells_of: "length (cells_of n) = n * n"
  unfolding cells_of_def by (simp add: length_concat_uniform [where w = n])

lemma cells_of_nth: "y < n \<Longrightarrow> x < n \<Longrightarrow> cells_of n ! (y * n + x) = (real x, real y)"
proof -
  assume y: "y < n" and x: "x < n"
  have "concat (map (\<lambda>y. map (\<lambda>x. (real x, real y)) [0..<n]) [0..<n]) ! (y * n + x)
      = map (\<lambda>y. map (\<lambda>x. (real x, real y)) [0..<n]) [0..<n] ! y ! x"
    using y x by (intro nth_concat_uniform) simp_all
  then show ?thesis using y x by (simp add: cells_of_def)
qed

lemma grid_of_scale_eq:
  "grid_of_scale self S (ind, s) =
     (\<lparr>t_hw = (S div s) * (S div s), t_an = 1, t_elems = cells_of (S div s)\<rparr>,
      \<lparr>t_hw = (S div s) * (S div s), t_an = anchor_number self,
        t_elems = replicate ((S div s) * (S div s) * anchor_number self) (real s, real s)\<rparr>,
      \<lparr>t_hw = (S div s) * (S div s), t_an = anchor_number self,
        t_elems = concat (replicate ((S div s) * (S div s)) (anchor_size self ! ind))\<rparr>)"
  using stack_view_meshgrid [of "S div s"]
  by (simp add: grid_of_scale_def Let_def split_beta)

lemma create_grid_eq:
  assumes st: "stride self = [8, 16, 32]"
  shows "create_grid self S =
     (\<lparr>t_hw = (S div 8) * (S div 8) + (S div 16) * (S div 16) + (S div 32) * (S div 32),
        t_an = 1,
        t_elems = cells_of (S div 8) @ cells_of (S div 16) @ cells_of (S div 32)\<rparr>,
      \<lparr>t_hw = (S div 8) * (S div 8) + (S div 16) * (S div 16) + (S div 32) * (S div 32),
        t_an = anchor_number self,
        t_elems = replicate ((S div 8) * (S div 8) * anchor_number self) (8, 8)
                  @ replicate ((S div 16) * (S div 16) * anchor_number self) (16, 16)
                  @ replicate ((S div 32) * (S div 32) * anchor_number self) (32, 32)\<rparr>,
      \<lparr>t_hw = (S div 8) * (S div 8) + (S div 16) * (S div 16) + (S div 32) * (S div 32),
        t_an = anchor_number self,
        t_elems = concat (replicate ((S div 8) * (S div 8)) (anchor_size self ! 0))
                  @ concat (replicate ((S div 16) * (S div 16)) (anchor_size self ! 1))
                  @ concat (replicate ((S div 32) * (S div 32)) (anchor_size self ! 2))\<rparr>)"
  unfolding create_grid_def st Let_def
  by (simp add: grid_of_scale_eq cat_def numeral_2_eq_2)

lemma block_nth1: "i < length A \<Longrightarrow> (A @ B @ C) ! i = A ! i"
  by (simp add: nth_append)

lemma block_nth2: "i = length A + j \<Longrightarrow> j < length B \<Longrightarrow> (A @ B @ C) ! i = B ! j"
  by (simp add: nth_append)

lemma block_nth3:
  "i = length A + length B + j \<Longrightarrow> j < length C \<Longrightarrow> (A @ B @ C) ! i = C ! j"
  by (simp add: nth_append)

lemma cells_block:
  assumes "y < n" and "x < n"
  shows "y * n + x < length (cells_of n)" and "cells_of n ! (y * n + x) = (real x, real y)"
  using assms by (simp_all add: length_cells_of cell_index_bound cells_of_nth)

lemma stride_block:
  assumes "y < n" and "x < n" and "k < a"
  shows "(y * n + x) * a + k < length (replicate (n * n * a) v)"
    and "replicate (n * n * a) v ! ((y * n + x) * a + k) = v"
proof -
  from assms have "(y * n + x) * a + k < n * n * a"
    by (intro row_index_bound cell_index_bound)
  then show "(y * n + x) * a + k < length (replicate (n * n * a) v)"
    and "replicate (n * n * a) v ! ((y * n + x) * a + k) = v" by simp_all
qed

lemma anchor_block:
  assumes "y < n" and "x < n" and "k < a" and "length anchors = a"
  shows "(y * n + x) * a + k < length (concat (replicate (n * n) anchors))"
    and "concat (replicate (n * n) anchors) ! ((y * n + x) * a + k) = anchors ! k"
proof -
  have u: "\<forall>r \<in> set (replicate (n * n) anchors). length r = a" using assms(4) by simp
  have c: "y * n + x < n * n" using assms(1,2) by (rule cell_index_bound)
  from c assms(3) have "(y * n + x) * a + k < n * n * a" by (rule row_index_bound)
  then show "(y * n + x) * a + k < length (concat (replicate (n * n) anchors))"
    by (simp add: length_concat_uniform [OF u])
  have "concat (replicate (n * n) anchors) ! ((y * n + x) * a + k)
      = replicate (n * n) anchors ! (y * n + x) ! k"
    using u c assms(3) by (intro nth_concat_uniform) simp_all
  then show "concat (replicate (n * n) anchors) ! ((y * n + x) * a + k) = anchors ! k"
    using c by simp
qed

lemma length_anchor_block:
  "length anchors = a \<Longrightarrow> length (concat (replicate m anchors)) = m * a"
  by (simp add: length_concat_uniform [where w = a])

text \<open>
  C8. With the strides 8, 16 and 32 and \<open>a\<close> anchors in each of the three anchor rows,
  \<^verbatim>\<open>create_grid\<close> at resolution \<open>S\<close> returns a cell tensor of
  \<open>(S div 8)\<^sup>2 + (S div 16)\<^sup>2 + (S div 32)\<^sup>2\<close> cells and stride and anchor tensors of that many
  cells times \<open>a\<close> rows. Scale 0 comes first, then scale 1, then scale 2; inside a scale
  cell \<open>(x, y)\<close> sits at position \<open>y * (S div s) + x\<close> (row-major, \<open>y\<close> outer and \<open>x\<close>
  inner), and inside a cell the anchors follow in declared order, each row carrying the
  stride of its scale.
\<close>

theorem create_grid_table:
  assumes st: "stride self = [8, 16, 32]"
      and an: "\<forall>ind < 3. length (anchor_size self ! ind) = anchor_number self"
  shows "let g = fst (create_grid self S);
             str = fst (snd (create_grid self S));
             wh = snd (snd (create_grid self S));
             a = anchor_number self;
             total = (S div 8)\<^sup>2 + (S div 16)\<^sup>2 + (S div 32)\<^sup>2
         in t_hw g = total \<and> t_an g = 1 \<and> length (t_elems g) = total
          \<and> t_hw str = total \<and> t_an str = a \<and> length (t_elems str) = total * a
          \<and> t_hw wh = total \<and> t_an wh = a \<and> length (t_elems wh) = total * a
          \<and> (\<forall>ind y x. ind < 3 \<and> y < S div ([8, 16, 32] ! ind) \<and> x < S div ([8, 16, 32] ! ind) \<longrightarrow>
                (let s = [8, 16, 32] ! ind;
                     cell = (\<Sum>i < ind. (S div ([8, 16, 32] ! i))\<^sup>2) + y * (S div s) + x
                 in t_elems g ! cell = (real x, real y)
                  \<and> (\<forall>k < a. t_elems str ! (cell * a + k) = (real s, real s)
                            \<and> t_elems wh ! (cell * a + k) = anchor_size self ! ind ! k)))"
proof -
  define a where "a = anchor_number self"
  define n0 where "n0 = S div 8"
  define n1 where "n1 = S div 16"
  define n2 where "n2 = S div 32"
  define A0 where "A0 = anchor_size self ! 0"
  define A1 where "A1 = anchor_size self ! 1"
  define A2 where "A2 = anchor_size self ! 2"
  define G where "G = cells_of n0 @ cells_of n1 @ cells_of n2"
  define ST where "ST = replicate (n0 * n0 * a) (8 :: real, 8 :: real)
      @ replicate (n1 * n1 * a) (16, 16) @ replicate (n2 * n2 * a) (32, 32)"
  define WH where "WH = concat (replicate (n0 * n0) A0) @ concat (replicate (n1 * n1) A1)
      @ concat (replicate (n2 * n2) A2)"
  define total where "total = n0 * n0 + n1 * n1 + n2 * n2"
  have eq: "create_grid self S =
      (\<lparr>t_hw = total, t_an = 1, t_elems = G\<rparr>, \<lparr>t_hw = total, t_an = a, t_elems = ST\<rparr>,
       \<lparr>t_hw = total, t_an = a, t_elems = WH\<rparr>)"
    unfolding create_grid_eq [OF st] total_def G_def ST_def WH_def a_def n0_def n1_def n2_def
      A0_def A1_def A2_def by simp
  have lA: "length A0 = a" "length A1 = a" "length A2 = a"
    using an by (simp_all add: A0_def A1_def A2_def a_def)
  have lG: "length G = total"
    by (simp add: G_def total_def length_cells_of)
  have lST: "length ST = total * a"
    by (simp add: ST_def total_def add_mult_distrib)
  have lWH: "length WH = total * a"
    by (simp add: WH_def total_def add_mult_distrib length_anchor_block lA)
  have c0: "G ! (y * n0 + x) = (real x, real y)" if "y < n0" "x < n0" for x y
    unfolding G_def using cells_block [OF that] by (simp only: block_nth1)
  have c1: "G ! (n0 * n0 + y * n1 + x) = (real x, real y)" if "y < n1" "x < n1" for x y
  proof -
    have "n0 * n0 + y * n1 + x = length (cells_of n0) + (y * n1 + x)"
      by (simp add: length_cells_of)
    then have "G ! (n0 * n0 + y * n1 + x) = cells_of n1 ! (y * n1 + x)"
      unfolding G_def using cells_block(1) [OF that] by (rule block_nth2)
    then show ?thesis by (simp only: cells_block(2) [OF that])
  qed
  have c2: "G ! (n0 * n0 + n1 * n1 + y * n2 + x) = (real x, real y)" if "y < n2" "x < n2" for x y
  proof -
    have "n0 * n0 + n1 * n1 + y * n2 + x
        = length (cells_of n0) + length (cells_of n1) + (y * n2 + x)"
      by (simp add: length_cells_of)
    then have "G ! (n0 * n0 + n1 * n1 + y * n2 + x) = cells_of n2 ! (y * n2 + x)"
      unfolding G_def using cells_block(1) [OF that] by (rule block_nth3)
    then show ?thesis by (simp only: cells_block(2) [OF that])
  qed
  have s0: "ST ! ((y * n0 + x) * a + k) = (8, 8)" if "y < n0" "x < n0" "k < a" for x y k
    unfolding ST_def using stride_block [OF that, of "(8 :: real, 8 :: real)"]
    by (simp only: block_nth1)
  have s1: "ST ! ((n0 * n0 + y * n1 + x) * a + k) = (16, 16)" if "y < n1" "x < n1" "k < a" for x y k
  proof -
    have "(n0 * n0 + y * n1 + x) * a + k
        = length (replicate (n0 * n0 * a) (8 :: real, 8 :: real)) + ((y * n1 + x) * a + k)"
      by (simp add: add_mult_distrib)
    then have "ST ! ((n0 * n0 + y * n1 + x) * a + k)
        = replicate (n1 * n1 * a) (16, 16) ! ((y * n1 + x) * a + k)"
      unfolding ST_def using stride_block(1) [OF that] by (rule block_nth2)
    then show ?thesis by (simp only: stride_block(2) [OF that])
  qed
  have s2: "ST ! ((n0 * n0 + n1 * n1 + y * n2 + x) * a + k) = (32, 32)"
    if "y < n2" "x < n2" "k < a" for x y k
  proof -
    have "(n0 * n0 + n1 * n1 + y * n2 + x) * a + k
        = length (replicate (n0 * n0 * a) (8 :: real, 8 :: real))
          + length (replicate (n1 * n1 * a) (16 :: real, 16 :: real)) + ((y * n2 + x) * a + k)"
      by (simp add: add_mult_distrib)
    then have "ST ! ((n0 * n0 + n1 * n1 + y * n2 + x) * a + k)
        = replicate (n2 * n2 * a) (32, 32) ! ((y * n2 + x) * a + k)"
      unfolding ST_def using stride_block(1) [OF that] by (rule block_nth3)
    then show ?thesis by (simp only: stride_block(2) [OF that])
  qed
  have w0: "WH ! ((y * n0 + x) * a + k) = A0 ! k" if "y < n0" "x < n0" "k < a" for x y k
    unfolding WH_def using anchor_block [OF that lA(1)] by (simp only: block_nth1)
  have w1: "WH ! ((n0 * n0 + y * n1 + x) * a + k) = A1 ! k" if "y < n1" "x < n1" "k < a" for x y k
  proof -
    have "(n0 * n0 + y * n1 + x) * a + k
        = length (concat (replicate (n0 * n0) A0)) + ((y * n1 + x) * a + k)"
      by (simp add: add_mult_distrib length_anchor_block [OF lA(1)])
    then have "WH ! ((n0 * n0 + y * n1 + x) * a + k)
        = concat (replicate (n1 * n1) A1) ! ((y * n1 + x) * a + k)"
      unfolding WH_def using anchor_block(1) [OF that lA(2)] by (rule block_nth2)
    then show ?thesis by (simp only: anchor_block(2) [OF that lA(2)])
  qed
  have w2: "WH ! ((n0 * n0 + n1 * n1 + y * n2 + x) * a + k) = A2 ! k"
    if "y < n2" "x < n2" "k < a" for x y k
  proof -
    have "(n0 * n0 + n1 * n1 + y * n2 + x) * a + k
        = length (concat (replicate (n0 * n0) A0)) + length (concat (replicate (n1 * n1) A1))
          + ((y * n2 + x) * a + k)"
      by (simp add: add_mult_distrib length_anchor_block [OF lA(1)] length_anchor_block [OF lA(2)])
    then have "WH ! ((n0 * n0 + n1 * n1 + y * n2 + x) * a + k)
        = concat (replicate (n2 * n2) A2) ! ((y * n2 + x) * a + k)"
      unfolding WH_def using anchor_block(1) [OF that lA(3)] by (rule block_nth3)
    then show ?thesis by (simp only: anchor_block(2) [OF that lA(3)])
  qed
  have rows: "let s = [8, 16, 32] ! ind;
          cell = (\<Sum>i < ind. (S div ([8, 16, 32] ! i))\<^sup>2) + y * (S div s) + x
      in G ! cell = (real x, real y)
       \<and> (\<forall>k < a. ST ! (cell * a + k) = (real s, real s)
                 \<and> WH ! (cell * a + k) = anchor_size self ! ind ! k)"
    if h: "ind < 3 \<and> y < S div ([8, 16, 32] ! ind) \<and> x < S div ([8, 16, 32] ! ind)" for ind y x
  proof -
    from h consider "ind = 0" | "ind = 1" | "ind = 2" by linarith
    then show ?thesis
    proof cases
      case 1
      have sel: "[8, 16, 32] ! ind = (8 :: nat)" using 1 by simp
      have off: "(\<Sum>i < ind. (S div ([8, 16, 32] ! i))\<^sup>2) = 0" using 1 by simp
      from h have yx: "y < n0" "x < n0" by (simp_all add: sel n0_def)
      have "G ! (0 + y * n0 + x) = (real x, real y)" using c0 [OF yx] by simp
      moreover have "\<forall>k < a. ST ! ((0 + y * n0 + x) * a + k) = (real (8 :: nat), real (8 :: nat))
          \<and> WH ! ((0 + y * n0 + x) * a + k) = anchor_size self ! ind ! k"
        using s0 [OF yx] w0 [OF yx] by (simp add: A0_def 1)
      ultimately show ?thesis unfolding Let_def sel off n0_def [symmetric] by (rule conjI)
    next
      case 2
      have sel: "[8, 16, 32] ! ind = (16 :: nat)" using 2 by simp
      have off: "(\<Sum>i < ind. (S div ([8, 16, 32] ! i))\<^sup>2) = n0 * n0"
        using 2 by (simp add: power2_eq_square n0_def)
      from h have yx: "y < n1" "x < n1" by (simp_all add: sel n1_def)
      have "G ! (n0 * n0 + y * n1 + x) = (real x, real y)" by (rule c1 [OF yx])
      moreover have "\<forall>k < a. ST ! ((n0 * n0 + y * n1 + x) * a + k) = (real (16 :: nat), real (16 :: nat))
          \<and> WH ! ((n0 * n0 + y * n1 + x) * a + k) = anchor_size self ! ind ! k"
        using s1 [OF yx] w1 [OF yx] by (simp add: A1_def 2)
      ultimately show ?thesis unfolding Let_def sel off n1_def [symmetric] by (rule conjI)
    next
      case 3
      have sel: "[8, 16, 32] ! ind = (32 :: nat)" using 3 by simp
      have off: "(\<Sum>i < ind. (S div ([8, 16, 32] ! i))\<^sup>2) = n0 * n0 + n1 * n1"
        using 3 by (simp add: power2_eq_square n0_def n1_def lessThan_Suc numeral_2_eq_2)
      from h have yx: "y < n2" "x < n2" by (simp_all add: sel n2_def)
      have "G ! (n0 * n0 + n1 * n1 + y * n2 + x) = (real x, real y)" by (rule c2 [OF yx])
      moreover have "\<forall>k < a. ST ! ((n0 * n0 + n1 * n1 + y * n2 + x) * a + k)
            = (real (32 :: nat), real (32 :: nat))
          \<and> WH ! ((n0 * n0 + n1 * n1 + y * n2 + x) * a + k) = anchor_size self ! ind ! k"
        using s2 [OF yx] w2 [OF yx] by (simp add: A2_def 3 numeral_2_eq_2)
      ultimately show ?thesis unfolding Let_def sel off n2_def [symmetric] by (rule conjI)
    qed
  qed
  have tot: "(S div 8)\<^sup>2 + (S div 16)\<^sup>2 + (S div 32)\<^sup>2 = total"
    by (simp add: total_def n0_def n1_def n2_def power2_eq_square)
  show ?thesis
    unfolding Let_def eq fst_conv snd_conv tot a_def [symmetric]
    using lG lST lWH rows by (simp add: Let_def)
qed

text \<open>
  Resolution 32 with one anchor per scale: 16 + 4 + 1 rows; row 18 is cell \<open>(0, 1)\<close> of
  scale 1.
\<close>

theorem create_grid_table_witness:
  "stride example_self = [8, 16, 32]
   \<and> length (anchor_size example_self ! 0) = anchor_number example_self
   \<and> length (anchor_size example_self ! 1) = anchor_number example_self
   \<and> length (anchor_size example_self ! 2) = anchor_number example_self
   \<and> (1 :: nat) < 3 \<and> (1 :: nat) < 32 div ([8, 16, 32] ! 1) \<and> (0 :: nat) < 32 div ([8, 16, 32] ! 1)
   \<and> t_hw (fst (create_grid example_self 32)) = 21
   \<and> length (t_elems (snd (snd (create_grid example_self 32)))) = 21
   \<and> t_elems (fst (create_grid example_self 32)) ! 18 = (0, 1)
   \<and> t_elems (fst (snd (create_grid example_self 32))) ! 18 = (16, 16)
   \<and> t_elems (snd (snd (create_grid example_self 32))) ! 18 = (20, 28)"
proof -
  have st: "stride example_self = [8, 16, 32]" by (simp add: example_self_def)
  have an: "\<forall>ind < 3. length (anchor_size example_self ! ind) = anchor_number example_self"
    by (simp add: example_self_def numeral_3_eq_3 less_Suc_eq)
  have h: "(1 :: nat) < 3 \<and> (1 :: nat) < 32 div ([8, 16, 32] ! 1) \<and> (0 :: nat) < 32 div ([8, 16, 32] ! 1)"
    by simp
  note t = create_grid_table [OF st an, of 32, unfolded Let_def]
  from t have hw: "t_hw (fst (create_grid example_self 32)) = 21" by simp
  from t have len: "length (t_elems (snd (snd (create_grid example_self 32)))) = 21"
    by (simp add: example_self_def)
  note rows = t [THEN conjunct2, THEN conjunct2, THEN conjunct2, THEN conjunct2, THEN conjunct2,
      THEN conjunct2, THEN conjunct2, THEN conjunct2, THEN conjunct2, rule_format, of 1 1 0, OF h]
  from rows have g: "t_elems (fst (create_grid example_self 32)) ! 18 = (0, 1)" by simp
  have a1: "(0 :: nat) < anchor_number example_self" by (simp add: example_self_def)
  from rows [THEN conjunct2, rule_format, OF a1]
  have s: "t_elems (fst (snd (create_grid example_self 32))) ! 18 = (16, 16)"
    and w: "t_elems (snd (snd (create_grid example_self 32))) ! 18 = (20, 28)"
    by (simp_all add: example_self_def)
  have an': "length (anchor_size example_self ! 0) = anchor_number example_self"
      "length (anchor_size example_self ! 1) = anchor_number example_self"
      "length (anchor_size example_self ! 2) = anchor_number example_self"
    by (simp_all add: example_self_def)
  from st an' h hw len g s w show ?thesis by (intro conjI) simp_all
qed

subsection \<open>Box decoding\<close>

text \<open>
  Decoding. A broadcast operation on a prediction of the table's shape is a row-by-row
  operation on the flattened tensors; the cell tensor, with one entry per cell, is read
  at the row's cell \<open>r div ab_n\<close>.
\<close>

lemma bget_in_range:
  "i < t_hw t \<Longrightarrow> k < t_an t \<Longrightarrow> bget t i k = t_elems t ! (i * t_an t + k)"
  by (auto simp: bget_def)

lemma flat_index:
  assumes "r < n * (m :: nat)"
  shows "r div m < n" and "r mod m < m" and "r div m * m + r mod m = r"
proof -
  from assms have m: "0 < m" by (cases m) simp_all
  show "r div m < n" using assms by (simp add: less_mult_imp_div_less)
  show "r mod m < m" using m by simp
  show "r div m * m + r mod m = r" by simp
qed

lemma bop_elems_nth:
  assumes "r < n * m"
  shows "concat (map (\<lambda>i. map (\<lambda>k. g i k) [0..<m]) [0..<n]) ! r = g (r div m) (r mod m)"
proof -
  note f = flat_index [OF assms]
  have "concat (map (\<lambda>i. map (\<lambda>k. g i k) [0..<m]) [0..<n]) ! (r div m * m + r mod m)
      = map (\<lambda>i. map (\<lambda>k. g i k) [0..<m]) [0..<n] ! (r div m) ! (r mod m)"
    using f(1,2) by (intro nth_concat_uniform) simp_all
  then show ?thesis using f by simp
qed

lemma bop_elems_length:
  "length (concat (map (\<lambda>i. map (\<lambda>k. g i k) [0..<m]) [0..<n])) = n * m"
  by (simp add: length_concat_uniform [where w = m])

lemma bop_flat_same:
  assumes "t_hw u = t_hw t" and "t_an u = t_an t"
  shows "\<exists>E. bop f t u = Inr \<lparr>t_hw = t_hw t, t_an = t_an t, t_elems = E\<rparr>
           \<and> length E = t_hw t * t_an t
           \<and> (\<forall>r < t_hw t * t_an t. E ! r = f (t_elems t ! r) (t_elems u ! r))"
proof (intro exI conjI allI impI)
  let ?E = "concat (map (\<lambda>i. map (\<lambda>k. f (bget t i k) (bget u i k)) [0..<t_an t]) [0..<t_hw t])"
  show "bop f t u = Inr \<lparr>t_hw = t_hw t, t_an = t_an t, t_elems = ?E\<rparr>"
    using assms by (simp add: bop_def bdim_def)
  show "length ?E = t_hw t * t_an t" by (rule bop_elems_length)
  fix r assume r: "r < t_hw t * t_an t"
  note f = flat_index [OF r]
  have "?E ! r = f (bget t (r div t_an t) (r mod t_an t)) (bget u (r div t_an t) (r mod t_an t))"
    using r by (rule bop_elems_nth)
  also have "bget t (r div t_an t) (r mod t_an t) = t_elems t ! r"
    using f by (simp add: bget_in_range)
  also have "bget u (r div t_an t) (r mod t_an t) = t_elems u ! r"
    using f assms by (simp add: bget_in_range)
  finally show "?E ! r = f (t_elems t ! r) (t_elems u ! r)" .
qed

lemma bop_flat_cell:
  assumes "t_hw u = t_hw t" and "t_an u = 1"
  shows "\<exists>E. bop f t u = Inr \<lparr>t_hw = t_hw t, t_an = t_an t, t_elems = E\<rparr>
           \<and> length E = t_hw t * t_an t
           \<and> (\<forall>r < t_hw t * t_an t. E ! r = f (t_elems t ! r) (t_elems u ! (r div t_an t)))"
proof (intro exI conjI allI impI)
  let ?E = "concat (map (\<lambda>i. map (\<lambda>k. f (bget t i k) (bget u i k)) [0..<t_an t]) [0..<t_hw t])"
  show "bop f t u = Inr \<lparr>t_hw = t_hw t, t_an = t_an t, t_elems = ?E\<rparr>"
    using assms by (simp add: bop_def bdim_def)
  show "length ?E = t_hw t * t_an t" by (rule bop_elems_length)
  fix r assume r: "r < t_hw t * t_an t"
  note f = flat_index [OF r]
  have "?E ! r = f (bget t (r div t_an t) (r mod t_an t)) (bget u (r div t_an t) (r mod t_an t))"
    using r by (rule bop_elems_nth)
  also have "bget t (r div t_an t) (r mod t_an t) = t_elems t ! r"
    using f by (simp add: bget_in_range)
  also have "bget u (r div t_an t) (r mod t_an t) = t_elems u ! (r div t_an t)"
    using f assms by (auto simp: bget_def)
  finally show "?E ! r = f (t_elems t ! r) (t_elems u ! (r div t_an t))" .
qed

lemma init_example:
  "MiniYOLAF_init 8 (1 / 100) (3 / 10) [(10, 14), (20, 28), (40, 56)] = Inr example_self"
  by (simp add: MiniYOLAF_init_def view_anchors_def create_grid_def grid_of_scale_def
        meshgrid_def stack_view_def cat_def upt_rec example_self_def)

lemma decode_xywh_rows:
  assumes hw: "t_hw (grid_cell self) = t_hw pred" "t_hw (stride_tensor self) = t_hw pred"
              "t_hw (all_anchors_wh self) = t_hw pred"
      and an: "t_an (grid_cell self) = 1" "t_an (stride_tensor self) = t_an pred"
              "t_an (all_anchors_wh self) = t_an pred"
  shows "\<exists>rows. decode_xywh self pred = Inr rows
           \<and> length rows = t_hw pred * t_an pred
           \<and> (\<forall>r < t_hw pred * t_an pred.
                 rows ! r =
                   ((sigmoid (col0 (t_elems pred ! r)) + fst (t_elems (grid_cell self) ! (r div t_an pred)))
                      * fst (t_elems (stride_tensor self) ! r),
                    (sigmoid (col1 (t_elems pred ! r)) + snd (t_elems (grid_cell self) ! (r div t_an pred)))
                      * snd (t_elems (stride_tensor self) ! r),
                    exp (col2 (t_elems pred ! r)) * fst (t_elems (all_anchors_wh self) ! r),
                    exp (col3 (t_elems pred ! r)) * snd (t_elems (all_anchors_wh self) ! r)))"
proof -
  let ?n = "t_hw pred * t_an pred"
  let ?f1 = "\<lambda>t g. (sigmoid (col0 t) + fst g, sigmoid (col1 t) + snd g)"
  let ?f2 = "\<lambda>(c :: real \<times> real) (s :: real \<times> real). (fst c * fst s, snd c * snd s)"
  let ?f3 = "\<lambda>t a. (exp (col2 t) * fst a, exp (col3 t) * snd a)"
  from bop_flat_cell [OF hw(1) an(1), of ?f1]
  obtain E1 where b1: "bop ?f1 pred (grid_cell self) = Inr \<lparr>t_hw = t_hw pred, t_an = t_an pred, t_elems = E1\<rparr>"
    and e1: "\<forall>r < ?n. E1 ! r = ?f1 (t_elems pred ! r) (t_elems (grid_cell self) ! (r div t_an pred))"
    by blast
  let ?sg = "\<lparr>t_hw = t_hw pred, t_an = t_an pred, t_elems = E1\<rparr>"
  have "t_hw (stride_tensor self) = t_hw ?sg" "t_an (stride_tensor self) = t_an ?sg"
    using hw(2) an(2) by simp_all
  from bop_flat_same [OF this, of ?f2]
  obtain E2 where b2: "bop ?f2 ?sg (stride_tensor self) = Inr \<lparr>t_hw = t_hw pred, t_an = t_an pred, t_elems = E2\<rparr>"
    and l2: "length E2 = ?n"
    and e2: "\<forall>r < ?n. E2 ! r = ?f2 (E1 ! r) (t_elems (stride_tensor self) ! r)"
    by auto
  from bop_flat_same [OF hw(3) an(3), of ?f3]
  obtain E3 where b3: "bop ?f3 pred (all_anchors_wh self) = Inr \<lparr>t_hw = t_hw pred, t_an = t_an pred, t_elems = E3\<rparr>"
    and l3: "length E3 = ?n"
    and e3: "\<forall>r < ?n. E3 ! r = ?f3 (t_elems pred ! r) (t_elems (all_anchors_wh self) ! r)"
    by blast
  let ?rows = "map2 (\<lambda>c b. (fst c, snd c, fst b, snd b)) E2 E3"
  have run: "decode_xywh self pred = Inr ?rows"
    by (simp add: decode_xywh_def Let_def b1 b2 b3)
  have len: "length ?rows = ?n" by (simp add: l2 l3)
  have rows: "?rows ! r =
      ((sigmoid (col0 (t_elems pred ! r)) + fst (t_elems (grid_cell self) ! (r div t_an pred)))
         * fst (t_elems (stride_tensor self) ! r),
       (sigmoid (col1 (t_elems pred ! r)) + snd (t_elems (grid_cell self) ! (r div t_an pred)))
         * snd (t_elems (stride_tensor self) ! r),
       exp (col2 (t_elems pred ! r)) * fst (t_elems (all_anchors_wh self) ! r),
       exp (col3 (t_elems pred ! r)) * snd (t_elems (all_anchors_wh self) ! r))"
    if r: "r < ?n" for r
  proof -
    from r have "?rows ! r = (fst (E2 ! r), snd (E2 ! r), fst (E3 ! r), snd (E3 ! r))"
      by (simp add: l2 l3)
    also from r e1 e2 have "E2 ! r = ?f2 (?f1 (t_elems pred ! r) (t_elems (grid_cell self) ! (r div t_an pred)))
        (t_elems (stride_tensor self) ! r)" by simp
    also from r e3 have "E3 ! r = ?f3 (t_elems pred ! r) (t_elems (all_anchors_wh self) ! r)"
      by simp
    finally show ?thesis by simp
  qed
  from run len rows show ?thesis by blast
qed

text \<open>
  C6. For a prediction aligned with the grid tensors, \<^verbatim>\<open>decode_boxes\<close> succeeds and row
  \<open>r\<close> of its result is computed from row \<open>r\<close> of the prediction and the grid entries of
  slot \<open>r\<close> alone: \<open>cx = (sigmoid tx + cell_x) * stride\<close>, \<open>cy = (sigmoid ty + cell_y) * stride\<close>,
  \<open>w = anchor_w * exp tw\<close>, \<open>h = anchor_h * exp th\<close>, and the box is
  \<open>(cx - w/2, cy - h/2, cx + w/2, cy + h/2)\<close>.
\<close>

theorem decode_boxes_rows:
  assumes hw: "t_hw (grid_cell self) = t_hw pred" "t_hw (stride_tensor self) = t_hw pred"
              "t_hw (all_anchors_wh self) = t_hw pred"
      and an: "t_an (grid_cell self) = 1" "t_an (stride_tensor self) = t_an pred"
              "t_an (all_anchors_wh self) = t_an pred"
  shows "\<exists>rows. decode_boxes self pred = Inr rows
           \<and> length rows = t_hw pred * t_an pred
           \<and> (\<forall>r < t_hw pred * t_an pred.
                 (let t = t_elems pred ! r;
                      cell = t_elems (grid_cell self) ! (r div t_an pred);
                      s = t_elems (stride_tensor self) ! r;
                      anchor = t_elems (all_anchors_wh self) ! r;
                      cx = (sigmoid (col0 t) + fst cell) * fst s;
                      cy = (sigmoid (col1 t) + snd cell) * snd s;
                      w = fst anchor * exp (col2 t);
                      h = snd anchor * exp (col3 t)
                  in rows ! r = (cx - w / 2, cy - h / 2, cx + w / 2, cy + h / 2)))"
proof -
  from decode_xywh_rows [OF hw an]
  obtain xywh where run: "decode_xywh self pred = Inr xywh"
    and len: "length xywh = t_hw pred * t_an pred"
    and rows: "\<forall>r < t_hw pred * t_an pred.
       xywh ! r =
         ((sigmoid (col0 (t_elems pred ! r)) + fst (t_elems (grid_cell self) ! (r div t_an pred)))
            * fst (t_elems (stride_tensor self) ! r),
          (sigmoid (col1 (t_elems pred ! r)) + snd (t_elems (grid_cell self) ! (r div t_an pred)))
            * snd (t_elems (stride_tensor self) ! r),
          exp (col2 (t_elems pred ! r)) * fst (t_elems (all_anchors_wh self) ! r),
          exp (col3 (t_elems pred ! r)) * snd (t_elems (all_anchors_wh self) ! r))"
    by blast
  let ?corner = "\<lambda>r. (col0 r - col2 r / 2, col1 r - col3 r / 2, col0 r + col2 r / 2, col1 r + col3 r / 2)"
  have d: "decode_boxes self pred = Inr (map ?corner xywh)"
    by (simp add: decode_boxes_def run)
  show ?thesis
  proof (intro exI conjI allI impI)
    show "decode_boxes self pred = Inr (map ?corner xywh)" by (rule d)
    show "length (map ?corner xywh) = t_hw pred * t_an pred" by (simp add: len)
    fix r assume r: "r < t_hw pred * t_an pred"
    then have "map ?corner xywh ! r = ?corner (xywh ! r)" by (simp add: len)
    also from rows r have "xywh ! r =
         ((sigmoid (col0 (t_elems pred ! r)) + fst (t_elems (grid_cell self) ! (r div t_an pred)))
            * fst (t_elems (stride_tensor self) ! r),
          (sigmoid (col1 (t_elems pred ! r)) + snd (t_elems (grid_cell self) ! (r div t_an pred)))
            * snd (t_elems (stride_tensor self) ! r),
          exp (col2 (t_elems pred ! r)) * fst (t_elems (all_anchors_wh self) ! r),
          exp (col3 (t_elems pred ! r)) * snd (t_elems (all_anchors_wh self) ! r))"
      by blast
    finally show "let t = t_elems pred ! r;
                      cell = t_elems (grid_cell self) ! (r div t_an pred);
                      s = t_elems (stride_tensor self) ! r;
                      anchor = t_elems (all_anchors_wh self) ! r;
                      cx = (sigmoid (col0 t) + fst cell) * fst s;
                      cy = (sigmoid (col1 t) + snd cell) * snd s;
                      w = fst anchor * exp (col2 t);
                      h = snd anchor * exp (col3 t)
                  in map ?corner xywh ! r = (cx - w / 2, cy - h / 2, cx + w / 2, cy + h / 2)"
      by (simp add: Let_def mult.commute)
  qed
qed

text \<open>
  The single slot of the example object with a zero prediction: centre \<open>(4, 4)\<close>, size
  \<open>(10, 14)\<close>.
\<close>

theorem decode_boxes_rows_witness:
  "t_hw (grid_cell example_self) = t_hw (\<lparr>t_hw = 1, t_an = 1, t_elems = [(0, 0, 0, 0)]\<rparr> :: box tensor)
   \<and> t_an (grid_cell example_self) = 1
   \<and> t_an (stride_tensor example_self)
       = t_an (\<lparr>t_hw = 1, t_an = 1, t_elems = [(0, 0, 0, 0)]\<rparr> :: box tensor)
   \<and> (\<exists>rows. decode_boxes example_self \<lparr>t_hw = 1, t_an = 1, t_elems = [(0, 0, 0, 0)]\<rparr> = Inr rows
          \<and> length rows = 1 \<and> rows ! 0 = (- 1, - 3, 9, 11))"
proof -
  let ?pred = "\<lparr>t_hw = 1, t_an = 1, t_elems = [(0, 0, 0, 0)]\<rparr> :: box tensor"
  have hw: "t_hw (grid_cell example_self) = t_hw ?pred" "t_hw (stride_tensor example_self) = t_hw ?pred"
      "t_hw (all_anchors_wh example_self) = t_hw ?pred"
    by (simp_all add: example_self_def)
  have an: "t_an (grid_cell example_self) = 1" "t_an (stride_tensor example_self) = t_an ?pred"
      "t_an (all_anchors_wh example_self) = t_an ?pred"
    by (simp_all add: example_self_def)
  from decode_boxes_rows [OF hw an]
  obtain rows where run: "decode_boxes example_self ?pred = Inr rows"
    and len: "length rows = t_hw ?pred * t_an ?pred"
    and r: "\<forall>r < t_hw ?pred * t_an ?pred.
                 (let t = t_elems ?pred ! r;
                      cell = t_elems (grid_cell example_self) ! (r div t_an ?pred);
                      s = t_elems (stride_tensor example_self) ! r;
                      anchor = t_elems (all_anchors_wh example_self) ! r;
                      cx = (sigmoid (col0 t) + fst cell) * fst s;
                      cy = (sigmoid (col1 t) + snd cell) * snd s;
                      w = fst anchor * exp (col2 t);
                      h = snd anchor * exp (col3 t)
                  in rows ! r = (cx - w / 2, cy - h / 2, cx + w / 2, cy + h / 2))"
    by blast
  from len have l1: "length rows = 1" by simp
  from r have "rows ! 0 = (- 1, - 3, 9, 11)"
    by (simp add: Let_def example_self_def sigmoid_def)
  with run l1 hw(1) an(1,2) show ?thesis by blast
qed

subsection \<open>Clamping\<close>

text \<open>
  Clamping. \<^verbatim>\<open>torch.clamp(x, 0., 1.)\<close> returns a value between 0 and 1 and raises nothing.
\<close>

lemma clamp_unit: "0 \<le> clamp x 0 1 \<and> clamp x 0 1 \<le> 1"
  by (simp add: clamp_def)

lemma decode_boxes_ok:
  assumes hw: "t_hw (grid_cell self) = t_hw pred" "t_hw (stride_tensor self) = t_hw pred"
              "t_hw (all_anchors_wh self) = t_hw pred"
      and an: "t_an (grid_cell self) = 1" "t_an (stride_tensor self) = t_an pred"
              "t_an (all_anchors_wh self) = t_an pred"
  shows "\<exists>rows. decode_boxes self pred = Inr rows \<and> length rows = t_hw pred * t_an pred"
proof -
  from decode_xywh_rows [OF hw an]
  obtain xywh where "decode_xywh self pred = Inr xywh" "length xywh = t_hw pred * t_an pred"
    by blast
  then show ?thesis by (simp add: decode_boxes_def)
qed

lemma all_bbox_unit:
  assumes "all_bbox self pred = Inr bs"
  shows "\<forall>b \<in> set bs. in_unit_square b"
proof (cases "decode_boxes self pred")
  case (Inl e)
  with assms show ?thesis by (simp add: all_bbox_def)
next
  case (Inr rows)
  with assms have "bs = map (\<lambda>b. (clamp (col0 b / scale_torch self) 0 1, clamp (col1 b / scale_torch self) 0 1,
      clamp (col2 b / scale_torch self) 0 1, clamp (col3 b / scale_torch self) 0 1)) rows"
    by (simp add: all_bbox_def)
  then show ?thesis by (simp add: in_unit_square_def clamp_unit)
qed

lemma postprocess_subset:
  assumes "postprocess self all_local all_conf = Inr (bs, ss)"
  shows "set bs \<subseteq> set all_local"
proof (cases "\<forall>i \<in> set (conf_keep self all_conf). i < length all_local")
  case False
  then have "postprocess self all_local all_conf = Inl IndexError" by (rule postprocess_error)
  with assms show ?thesis by simp
next
  case True
  define keep0 where "keep0 = conf_keep self all_conf"
  define c_keep where "c_keep = greedy (nms_thresh self) (map (\<lambda>i. all_local ! i) keep0)
      (rev (argsort (map (\<lambda>i. all_conf ! i) keep0)))"
  from assms have bs: "bs = map (\<lambda>i. map (\<lambda>i. all_local ! i) keep0 ! i)
      [i \<leftarrow> [0..<length keep0]. i \<in> set c_keep]"
    unfolding postprocess_ok [OF True] Let_def keep0_def c_keep_def by simp
  show ?thesis
  proof
    fix b assume "b \<in> set bs"
    then obtain i where i: "i < length keep0" and b: "b = map (\<lambda>i. all_local ! i) keep0 ! i"
      unfolding bs by auto
    from i have "keep0 ! i \<in> set keep0" by (rule nth_mem)
    with True have "keep0 ! i < length all_local" by (simp add: keep0_def)
    then have "all_local ! (keep0 ! i) \<in> set all_local" by (rule nth_mem)
    with i b show "b \<in> set all_local" by simp
  qed
qed

text \<open>
  C7. Every box that \<^verbatim>\<open>forward\<close> obtains by decoding, dividing by the input resolution and
  clamping has all four coordinates between 0 and 1, and so has every box the inference
  branch returns after \<^verbatim>\<open>postprocess\<close>. Clamping adds no failure: the clamped array is an
  error exactly when decoding is, and for a prediction aligned with the grid tensors it is
  a list of one box per slot.
\<close>

theorem clamp_invariant:
  "(\<forall>bs. all_bbox self pred = Inr bs \<longrightarrow> (\<forall>b \<in> set bs. in_unit_square b))
   \<and> (\<forall>e. (all_bbox self pred = Inl e) = (decode_boxes self pred = Inl e))
   \<and> (t_hw (grid_cell self) = t_hw pred \<and> t_hw (stride_tensor self) = t_hw pred
        \<and> t_hw (all_anchors_wh self) = t_hw pred \<and> t_an (grid_cell self) = 1
        \<and> t_an (stride_tensor self) = t_an pred \<and> t_an (all_anchors_wh self) = t_an pred \<longrightarrow>
      (\<exists>bs. all_bbox self pred = Inr bs \<and> length bs = t_hw pred * t_an pred))
   \<and> (\<forall>bs ss. forward_test self HW txtytwth_rows conf_pred = Inr (bs, ss) \<longrightarrow>
         (\<forall>b \<in> set bs. in_unit_square b))"
proof (intro conjI allI impI)
  fix bs assume "all_bbox self pred = Inr bs"
  then show "\<forall>b \<in> set bs. in_unit_square b" by (rule all_bbox_unit)
next
  fix e show "(all_bbox self pred = Inl e) = (decode_boxes self pred = Inl e)"
    by (cases "decode_boxes self pred") (simp_all add: all_bbox_def)
next
  assume al: "t_hw (grid_cell self) = t_hw pred \<and> t_hw (stride_tensor self) = t_hw pred
        \<and> t_hw (all_anchors_wh self) = t_hw pred \<and> t_an (grid_cell self) = 1
        \<and> t_an (stride_tensor self) = t_an pred \<and> t_an (all_anchors_wh self) = t_an pred"
  then have "\<exists>rows. decode_boxes self pred = Inr rows \<and> length rows = t_hw pred * t_an pred"
    by (intro decode_boxes_ok) simp_all
  then obtain rows where "decode_boxes self pred = Inr rows" "length rows = t_hw pred * t_an pred"
    by blast
  then show "\<exists>bs. all_bbox self pred = Inr bs \<and> length bs = t_hw pred * t_an pred"
    by (simp add: all_bbox_def)
next
  fix bs ss assume f: "forward_test self HW txtytwth_rows conf_pred = Inr (bs, ss)"
  let ?pred = "\<lparr>t_hw = HW, t_an = anchor_number self, t_elems = txtytwth_rows\<rparr>"
  from f have shape: "length txtytwth_rows = HW * anchor_number self"
    by (simp add: forward_test_def split: if_splits)
  show "\<forall>b \<in> set bs. in_unit_square b"
  proof (cases "all_bbox self ?pred")
    case (Inl e)
    with f shape show ?thesis by (simp add: forward_test_def Let_def)
  next
    case (Inr boxes)
    with f shape have "postprocess self boxes (map sigmoid conf_pred) = Inr (bs, ss)"
      by (simp add: forward_test_def Let_def)
    then have "set bs \<subseteq> set boxes" by (rule postprocess_subset)
    moreover from Inr have "\<forall>b \<in> set boxes. in_unit_square b" by (rule all_bbox_unit)
    ultimately show ?thesis by blast
  qed
qed

text \<open>
  The single slot of the example object with a zero prediction: the decoded box
  \<open>(-1, -3, 9, 11)\<close> divided by 8 is clamped to \<open>(0, 0, 1, 1)\<close>.
\<close>

theorem clamp_invariant_witness:
  "all_bbox example_self \<lparr>t_hw = 1, t_an = 1, t_elems = [(0, 0, 0, 0)]\<rparr> = Inr [(0, 0, 1, 1)]
   \<and> in_unit_square (0, 0, 1, 1)
   \<and> forward_test example_self 1 [(0, 0, 0, 0)] [0] = Inr ([(0, 0, 1, 1)], [1 / 2])
   \<and> t_hw (grid_cell example_self) = t_hw (\<lparr>t_hw = 1, t_an = 1, t_elems = [(0, 0, 0, 0)]\<rparr> :: box tensor)
   \<and> t_an (grid_cell example_self) = 1
   \<and> (\<exists>bs. all_bbox example_self \<lparr>t_hw = 1, t_an = 1, t_elems = [(0, 0, 0, 0)]\<rparr> = Inr bs
          \<and> length bs = 1)"
proof -
  let ?pred = "\<lparr>t_hw = 1, t_an = 1, t_elems = [(0, 0, 0, 0)]\<rparr> :: box tensor"
  have run: "all_bbox example_self ?pred = Inr [(0, 0, 1, 1)]"
    by (simp add: all_bbox_def decode_boxes_def decode_xywh_def bop_def bdim_def bget_def
          example_self_def sigmoid_def clamp_def Let_def)
  have post: "postprocess example_self [(0, 0, 1, 1)] [1 / 2] = Inr ([(0, 0, 1, 1)], [1 / 2])"
    by (simp add: postprocess_def example_self_def nms_def argsort_def nms_loop_greedy)
  have fwd: "forward_test example_self 1 [(0, 0, 0, 0)] [0] = Inr ([(0, 0, 1, 1)], [1 / 2])"
    using run post by (simp add: forward_test_def Let_def sigmoid_def example_self_def)
  have al: "t_hw (grid_cell example_self) = t_hw ?pred \<and> t_hw (stride_tensor example_self) = t_hw ?pred
        \<and> t_hw (all_anchors_wh example_self) = t_hw ?pred \<and> t_an (grid_cell example_self) = 1
        \<and> t_an (stride_tensor example_self) = t_an ?pred
        \<and> t_an (all_anchors_wh example_self) = t_an ?pred"
    by (simp add: example_self_def)
  note t = clamp_invariant [of example_self ?pred 1 "[(0, 0, 0, 0)]" "[0]"]
  from t run have "\<forall>b \<in> set [(0, 0, 1, 1)]. in_unit_square b" by blast
  then have u1: "in_unit_square (0, 0, 1, 1)" by simp
  from t al have u2: "\<exists>bs. all_bbox example_self ?pred = Inr bs \<and> length bs = t_hw ?pred * t_an ?pred"
    by blast
  then have u3: "\<exists>bs. all_bbox example_self ?pred = Inr bs \<and> length bs = 1" by simp
  from al have a1: "t_hw (grid_cell example_self) = t_hw ?pred" and a2: "t_an (grid_cell example_self) = 1"
    by simp_all
  from run u1 fwd a1 a2 u3 show ?thesis by (intro conjI)
qed

subsection \<open>Objects built by the constructor\<close>

text \<open>
  Objects built by the constructor. They carry the strides 8, 16 and 32, three anchor
  rows of equal length and the tensors of \<^verbatim>\<open>create_grid\<close>, so the hypotheses of the grid
  and decoding theorems hold for them and for predictions of their shape.
\<close>

lemma init_fields:
  assumes "MiniYOLAF_init S ct nt anchors = Inr m"
  shows "stride m = [8, 16, 32]"
    and "anchor_number m = length anchors div 3"
    and "input_size m = S" and "scale_torch m = real S"
    and "\<forall>ind < 3. anchor_size m ! ind
            = take (length anchors div 3) (drop (ind * (length anchors div 3)) anchors)"
    and "\<forall>ind < 3. length (anchor_size m ! ind) = anchor_number m"
    and "(grid_cell m, stride_tensor m, all_anchors_wh m) = create_grid m S"
proof -
  define a where "a = length anchors div 3"
  define rows where "rows = map (\<lambda>i. take a (drop (i * a) anchors)) [0..<3]"
  define empty :: "(real \<times> real) tensor" where "empty = \<lparr>t_hw = 0, t_an = 0, t_elems = []\<rparr>"
  define self0 where "self0 = \<lparr>input_size = S, conf_thresh = ct, nms_thresh = nt,
      stride = [8, 16, 32], anchor_size = rows, anchor_number = a, grid_cell = empty,
      stride_tensor = empty, all_anchors_wh = empty, scale_torch = real S\<rparr>"
  have n3: "length anchors = 3 * a"
  proof (rule ccontr)
    assume "length anchors \<noteq> 3 * a"
    then have "length anchors * 2 \<noteq> 3 * a * 2" by simp
    then have "view_anchors anchors = Inl RuntimeError"
      by (simp add: view_anchors_def Let_def a_def)
    with assms show False by (simp add: MiniYOLAF_init_def)
  qed
  then have v: "view_anchors anchors = Inr rows"
    by (simp add: view_anchors_def Let_def a_def [symmetric] rows_def)
  have m: "m = self0\<lparr>grid_cell := fst (create_grid self0 S),
      stride_tensor := fst (snd (create_grid self0 S)),
      all_anchors_wh := snd (snd (create_grid self0 S))\<rparr>"
    using assms unfolding MiniYOLAF_init_def v
    by (simp add: Let_def split_beta self0_def empty_def a_def)
  have same: "create_grid m S = create_grid self0 S"
    unfolding m by (simp add: create_grid_def grid_of_scale_def)
  show "stride m = [8, 16, 32]" by (simp add: m self0_def)
  show "anchor_number m = length anchors div 3" by (simp add: m self0_def a_def)
  show "input_size m = S" by (simp add: m self0_def)
  show "scale_torch m = real S" by (simp add: m self0_def)
  have rows_nth: "rows ! ind = take a (drop (ind * a) anchors)" if "ind < 3" for ind
    using that unfolding rows_def by simp
  then show "\<forall>ind < 3. anchor_size m ! ind
      = take (length anchors div 3) (drop (ind * (length anchors div 3)) anchors)"
    by (simp add: m self0_def a_def)
  have "length (rows ! ind) = a" if "ind < 3" for ind
  proof -
    from that have "Suc ind * a \<le> 3 * a" by (intro mult_le_mono1) simp
    then have "a + ind * a \<le> 3 * a" by (simp only: mult_Suc)
    then have "a \<le> 3 * a - ind * a" by linarith
    then show ?thesis using that by (simp add: rows_nth n3 min_def)
  qed
  then show "\<forall>ind < 3. length (anchor_size m ! ind) = anchor_number m"
    by (simp add: m self0_def)
  show "(grid_cell m, stride_tensor m, all_anchors_wh m) = create_grid m S"
    unfolding same by (simp add: m)
qed

lemma init_aligned:
  assumes "MiniYOLAF_init S ct nt anchors = Inr m"
  shows "t_hw (stride_tensor m) = t_hw (grid_cell m)"
    and "t_hw (all_anchors_wh m) = t_hw (grid_cell m)"
    and "t_an (grid_cell m) = 1"
    and "t_an (stride_tensor m) = anchor_number m"
    and "t_an (all_anchors_wh m) = anchor_number m"
proof -
  note f = init_fields [OF assms]
  from f(7) create_grid_eq [OF f(1), of S]
  have g: "grid_cell m = fst (create_grid m S)" "stride_tensor m = fst (snd (create_grid m S))"
      "all_anchors_wh m = snd (snd (create_grid m S))"
    by (metis fst_conv, metis fst_conv snd_conv, metis snd_conv)
  show "t_hw (stride_tensor m) = t_hw (grid_cell m)" "t_hw (all_anchors_wh m) = t_hw (grid_cell m)"
    "t_an (grid_cell m) = 1" "t_an (stride_tensor m) = anchor_number m"
    "t_an (all_anchors_wh m) = anchor_number m"
    unfolding g create_grid_eq [OF f(1)] by simp_all
qed

end
